theory Spec2Isabelle
  imports Main "HOL-Library.Multiset"
begin

section \<open>JavaScript values and objects\<close>

text \<open>
  The store holds plain objects parsed from JSON responses. An object is its set of own
  properties, a map from property names to values; a value is a primitive or an array of
  objects (the \<open>cards\<close> of a stack payload, the \<open>labels\<close> of a board). Numbers are
  integers: ids, order values and indices are integers in this program, and JSON carries
  no NaN.
\<close>

datatype jsval =
    JUndefined
  | JNull
  | JBool bool
  | JNum int
  | JStr string
  | JArr "(string \<Rightarrow> jsval option) list"

type_synonym obj = "string \<Rightarrow> jsval option"

text \<open>Reading a property \<open>o.k\<close> of an object: a missing property reads \<open>undefined\<close>.\<close>

definition field :: "obj \<Rightarrow> string \<Rightarrow> jsval" where
  "field ob k = (case ob k of None \<Rightarrow> JUndefined | Some v \<Rightarrow> v)"

text \<open>
  \<open>a === b\<close>. Primitives are compared by type and value. Arrays are compared by
  reference; two array values read from two objects' properties are taken to be two
  references, so they are never strictly equal.
\<close>

definition strict_eq :: "jsval \<Rightarrow> jsval \<Rightarrow> bool" where
  "strict_eq a b = (case a of JArr _ \<Rightarrow> False | _ \<Rightarrow> a = b)"

text \<open>ToBoolean, as used by \<open>&&\<close> and \<open>!\<close>.\<close>

fun truthy :: "jsval \<Rightarrow> bool" where
  "truthy JUndefined = False"
| "truthy JNull = False"
| "truthy (JBool b) = b"
| "truthy (JNum n) = (n \<noteq> 0)"
| "truthy (JStr s) = (s \<noteq> [])"
| "truthy (JArr xs) = True"

text \<open>
  ToNumber, as used by the subtraction in the sort comparator; \<open>None\<close> is NaN. The
  conversion of a string to a number is a built-in of the language and is taken as the
  parameter \<open>N\<close>. An empty array converts through the empty string to 0, an array that
  holds objects converts through \<open>[object Object]\<close> to NaN.
\<close>

fun to_number :: "(string \<Rightarrow> int option) \<Rightarrow> jsval \<Rightarrow> int option" where
  "to_number N JUndefined = None"
| "to_number N JNull = Some 0"
| "to_number N (JBool b) = Some (if b then 1 else 0)"
| "to_number N (JNum n) = Some n"
| "to_number N (JStr s) = N s"
| "to_number N (JArr []) = Some 0"
| "to_number N (JArr (x # xs)) = None"

definition js_sub :: "(string \<Rightarrow> int option) \<Rightarrow> jsval \<Rightarrow> jsval \<Rightarrow> int option" where
  "js_sub N a b =
     (case to_number N a of
        None \<Rightarrow> None
      | Some x \<Rightarrow> (case to_number N b of None \<Rightarrow> None | Some y \<Rightarrow> Some (x - y)))"

subsection \<open>Array built-ins\<close>

text \<open>\<open>Array.prototype.findIndex\<close>: the index of the first match, or -1.\<close>

fun findIndex :: "('a \<Rightarrow> bool) \<Rightarrow> 'a list \<Rightarrow> int" where
  "findIndex P [] = - 1"
| "findIndex P (x # xs) =
     (if P x then 0 else (let i = findIndex P xs in if i = - 1 then - 1 else i + 1))"

text \<open>
  \<open>Array.prototype.sort\<close> with a comparator. The sort is stable; a comparator result of
  NaN counts as 0. The model is the stable insertion sort: \<open>x\<close> goes in front of the first
  element it does not compare greater than. Where the comparator is a consistent order
  every stable sort returns this list; where it is not (some key is NaN) the language
  leaves the order to the implementation, and the model fixes this one.
\<close>

definition not_after :: "int option \<Rightarrow> bool" where
  "not_after c = (case c of None \<Rightarrow> True | Some d \<Rightarrow> d \<le> 0)"

fun js_insort :: "('a \<Rightarrow> 'a \<Rightarrow> int option) \<Rightarrow> 'a \<Rightarrow> 'a list \<Rightarrow> 'a list" where
  "js_insort c x [] = [x]"
| "js_insort c x (y # ys) =
     (if not_after (c x y) then x # y # ys else y # js_insort c x ys)"

fun js_sort :: "('a \<Rightarrow> 'a \<Rightarrow> int option) \<Rightarrow> 'a list \<Rightarrow> 'a list" where
  "js_sort c [] = []"
| "js_sort c (x # xs) = js_insort c x (js_sort c xs)"

text \<open>\<open>arr.splice(i, 1)\<close> and \<open>arr.splice(i, 0, x)\<close> for an index inside the array.\<close>

definition remove_at :: "nat \<Rightarrow> 'a list \<Rightarrow> 'a list" where
  "remove_at i xs = take i xs @ drop (Suc i) xs"

definition insert_at :: "nat \<Rightarrow> 'a \<Rightarrow> 'a list \<Rightarrow> 'a list" where
  "insert_at i x xs = take i xs @ x # drop i xs"

section \<open>Errors\<close>

text \<open>
  \<open>TypeError\<close> is the exception of reading a property of \<open>undefined\<close> or \<open>null\<close> and of
  calling a value that is not a function. \<open>OutsideContract\<close> marks a call of the order
  helper outside the preconditions its description gives; nothing is known of the helper
  there, and the model stops.
\<close>

datatype js_error = TypeError | OutsideContract

section \<open>The order helper\<close>

text \<open>
  Modelled from the spec: \<open>helpers/applyOrderToArray\<close> is imported by the stack store and
  is not among the sources. Its description: with \<open>0 \<le> removedIndex < length\<close> and
  \<open>0 \<le> addedIndex < length\<close>, it removes the element at \<open>removedIndex\<close>, re-inserts it
  at \<open>addedIndex\<close> (an index of the sequence after the removal) and returns the new
  sequence. Outside the preconditions the result is \<open>None\<close>.
\<close>

definition applyOrderToArray :: "'a list \<Rightarrow> int \<Rightarrow> int \<Rightarrow> 'a list option" where
  "applyOrderToArray arr removedIndex addedIndex =
     (if 0 \<le> removedIndex \<and> removedIndex < int (length arr)
         \<and> 0 \<le> addedIndex \<and> addedIndex < int (length arr)
      then Some (insert_at (nat addedIndex) (arr ! nat removedIndex)
                   (remove_at (nat removedIndex) arr))
      else None)"

section \<open>The store\<close>

text \<open>
  The state of the root store with the state of its two modules: \<open>stacks\<close> is the state
  of the stack module, \<open>cards\<close> that of the card module. \<open>currentBoard\<close> is \<open>null\<close>
  (\<open>None\<close>) or a board object.
\<close>

record state =
  stacks :: "obj list"
  cards :: "obj list"
  navShown :: bool
  sidebarShown :: bool
  currentBoard :: "obj option"
  boards :: "obj list"
  sharees :: "obj list"
  boardFilter :: jsval

definition BOARD_FILTERS_ALL :: jsval where
  "BOARD_FILTERS_ALL = JStr ''''"

definition BOARD_FILTERS_ARCHIVED :: jsval where
  "BOARD_FILTERS_ARCHIVED = JStr ''archived''"

definition BOARD_FILTERS_SHARED :: jsval where
  "BOARD_FILTERS_SHARED = JStr ''shared''"

definition initial_state :: state where
  "initial_state =
     \<lparr> stacks = [], cards = [], navShown = True, sidebarShown = False,
       currentBoard = None, boards = [], sharees = [],
       boardFilter = BOARD_FILTERS_ALL \<rparr>"

subsection \<open>Stack module: getter and mutations\<close>

definition by_order :: "(string \<Rightarrow> int option) \<Rightarrow> obj \<Rightarrow> obj \<Rightarrow> int option" where
  "by_order N a b = js_sub N (field a ''order'') (field b ''order'')"

definition stacksByBoard :: "(string \<Rightarrow> int option) \<Rightarrow> state \<Rightarrow> jsval \<Rightarrow> obj list" where
  "stacksByBoard N s ident =
     js_sort (by_order N)
       (filter (\<lambda>stack. strict_eq (field stack ''boardId'') ident) (stacks s))"

text \<open>
  \<open>Object.assign({}, existingStack, stack)\<close>: the own properties of \<open>existingStack\<close>
  overwritten and extended by those of \<open>stack\<close>; an \<open>undefined\<close> source is skipped.
\<close>

definition assign :: "obj option \<Rightarrow> obj \<Rightarrow> obj" where
  "assign existing incoming =
     (case existing of None \<Rightarrow> incoming | Some e \<Rightarrow> e ++ incoming)"

definition addStack :: "state \<Rightarrow> obj \<Rightarrow> state" where
  "addStack s stack =
     (let existingIndex =
            findIndex (\<lambda>st. strict_eq (field st ''id'') (field stack ''id'')) (stacks s)
      in if existingIndex \<noteq> - 1
         then (let existingStack =
                     List.find (\<lambda>st. strict_eq (field st ''id'') (field stack ''id'')) (stacks s)
               in s\<lparr>stacks := (stacks s)[nat existingIndex := assign existingStack stack]\<rparr>)
         else s\<lparr>stacks := stacks s @ [stack]\<rparr>)"

text \<open>
  The \<open>orderStack\<close> mutation writes the \<open>order\<close> property of objects that the filtered,
  sorted and reordered arrays share with \<open>state.stacks\<close>. A reference to an object of
  the store is its position in \<open>state.stacks\<close> (the array holds each object once), and
  the three derived arrays are arrays of such references, each paired with the object
  it points to. \<open>restamp\<close> is the \<open>for\<close> loop: \<open>newOrder[i].order = parseInt(i)\<close>.
\<close>

fun restamp :: "nat \<Rightarrow> (nat \<times> obj) list \<Rightarrow> obj list \<Rightarrow> obj list" where
  "restamp i [] sts = sts"
| "restamp i (r # newOrder) sts =
     restamp (Suc i) newOrder (sts[fst r := (sts ! fst r)(''order'' \<mapsto> JNum (int i))])"

definition by_order_ref ::
  "(string \<Rightarrow> int option) \<Rightarrow> nat \<times> obj \<Rightarrow> nat \<times> obj \<Rightarrow> int option" where
  "by_order_ref N a b = by_order N (snd a) (snd b)"

text \<open>The payload object \<open>{ stack, removedIndex, addedIndex }\<close> of \<open>orderStack\<close>.\<close>

record order_payload =
  p_stack :: obj
  p_removedIndex :: int
  p_addedIndex :: int

definition orderStack :: "(string \<Rightarrow> int option) \<Rightarrow> state \<Rightarrow> order_payload \<Rightarrow> js_error + state" where
  "orderStack N s p =
     (let currentOrder =
            js_sort (by_order_ref N)
              (filter (\<lambda>r. strict_eq (field (snd r) ''boardId'') (field (p_stack p) ''boardId''))
                 (enumerate 0 (stacks s)))
      in case applyOrderToArray currentOrder (p_removedIndex p) (p_addedIndex p) of
           None \<Rightarrow> Inl OutsideContract
         | Some newOrder \<Rightarrow> Inr (s\<lparr>stacks := restamp 0 newOrder (stacks s)\<rparr>))"

definition deleteStack :: "state \<Rightarrow> obj \<Rightarrow> state" where
  "deleteStack s stack =
     (let existingIndex =
            findIndex (\<lambda>st. strict_eq (field st ''id'') (field stack ''id'')) (stacks s)
      in if existingIndex \<noteq> - 1
         then s\<lparr>stacks := remove_at (nat existingIndex) (stacks s)\<rparr>
         else s)"

definition updateStack :: "state \<Rightarrow> obj \<Rightarrow> state" where
  "updateStack s stack =
     (let existingIndex =
            findIndex (\<lambda>st. strict_eq (field st ''id'') (field stack ''id'')) (stacks s)
      in if existingIndex \<noteq> - 1
         then s\<lparr>stacks := (stacks s)[nat existingIndex := stack]\<rparr>
         else s)"


subsection \<open>Card module\<close>

text \<open>
  Modelled from the spec: the card module (\<open>store/card\<close>) is imported by the root store
  and is not among the sources. Its \<open>addCard\<close> mutation follows the description of the
  entity stores' \<open>add\<close>: upsert by id; if an entity with the same id exists, the new
  fields are shallow-merged over the existing record, otherwise the entity is appended.
\<close>

definition addCard :: "state \<Rightarrow> obj \<Rightarrow> state" where
  "addCard s newCard =
     (let existingIndex =
            findIndex (\<lambda>c. strict_eq (field c ''id'') (field newCard ''id'')) (cards s)
      in if existingIndex \<noteq> - 1
         then s\<lparr>cards := (cards s)[nat existingIndex :=
                   assign (Some (cards s ! nat existingIndex)) newCard]\<rparr>
         else s\<lparr>cards := cards s @ [newCard]\<rparr>)"

subsection \<open>Root store: getters\<close>

definition noneArchivedBoards :: "state \<Rightarrow> obj list" where
  "noneArchivedBoards s =
     filter (\<lambda>board. strict_eq (field board ''archived'') (JBool False)
                      \<and> \<not> truthy (field board ''deletedAt'')) (boards s)"

definition archivedBoards :: "state \<Rightarrow> obj list" where
  "archivedBoards s =
     filter (\<lambda>board. strict_eq (field board ''archived'') (JBool True)
                      \<and> \<not> truthy (field board ''deletedAt'')) (boards s)"

definition sharedBoards :: "state \<Rightarrow> obj list" where
  "sharedBoards s =
     filter (\<lambda>board. truthy (field board ''shared'')
                      \<and> \<not> truthy (field board ''deletedAt'')) (boards s)"

text \<open>\<open>Array.prototype.map\<close> calls its function with the element, its index and the array.\<close>

definition js_map :: "('a \<Rightarrow> int \<Rightarrow> 'a list \<Rightarrow> 'b) \<Rightarrow> 'a list \<Rightarrow> 'b list" where
  "js_map f xs = map (\<lambda>(i, x). f x (int i) xs) (enumerate 0 xs)"

text \<open>
  \<open>helpers/boardToMenuItem\<close> is not among the sources; the projection is the parameter
  \<open>boardToMenuItem\<close>.
\<close>

definition filteredBoards :: "(obj \<Rightarrow> int \<Rightarrow> obj list \<Rightarrow> 'm) \<Rightarrow> state \<Rightarrow> 'm list" where
  "filteredBoards boardToMenuItem s =
     (let bs = filter (\<lambda>board.
                 (strict_eq (boardFilter s) BOARD_FILTERS_ALL
                    \<and> strict_eq (field board ''archived'') (JBool False))
               \<or> (strict_eq (boardFilter s) BOARD_FILTERS_ARCHIVED
                    \<and> strict_eq (field board ''archived'') (JBool True))
               \<or> (strict_eq (boardFilter s) BOARD_FILTERS_SHARED
                    \<and> strict_eq (field board ''shared'') (JNum 1))) (boards s)
      in js_map boardToMenuItem bs)"

definition currentBoardLabels :: "state \<Rightarrow> js_error + jsval" where
  "currentBoardLabels s =
     (case currentBoard s of None \<Rightarrow> Inl TypeError | Some b \<Rightarrow> Inr (field b ''labels''))"

subsection \<open>Root store: mutations\<close>

definition addBoard :: "state \<Rightarrow> obj \<Rightarrow> state" where
  "addBoard s board =
     (let indexExisting =
            findIndex (\<lambda>b. strict_eq (field board ''id'') (field b ''id'')) (boards s)
      in if indexExisting > - 1
         then s\<lparr>boards := (boards s)[nat indexExisting := board]\<rparr>
         else s\<lparr>boards := boards s @ [board]\<rparr>)"

definition removeBoard :: "state \<Rightarrow> obj \<Rightarrow> state" where
  "removeBoard s board =
     s\<lparr>boards := filter (\<lambda>b. \<not> strict_eq (field board ''id'') (field b ''id'')) (boards s)\<rparr>"

definition toggleNav :: "state \<Rightarrow> state" where
  "toggleNav s = s\<lparr>navShown := \<not> navShown s\<rparr>"

definition toggleSidebar :: "state \<Rightarrow> state" where
  "toggleSidebar s = s\<lparr>sidebarShown := \<not> sidebarShown s\<rparr>"

definition setBoards :: "state \<Rightarrow> obj list \<Rightarrow> state" where
  "setBoards s bs = s\<lparr>boards := bs\<rparr>"

definition setSharees :: "state \<Rightarrow> obj list \<Rightarrow> state" where
  "setSharees s sh = s\<lparr>sharees := sh\<rparr>"

definition setBoardFilter :: "state \<Rightarrow> jsval \<Rightarrow> state" where
  "setBoardFilter s flt = s\<lparr>boardFilter := flt\<rparr>"

definition setCurrentBoard :: "state \<Rightarrow> obj option \<Rightarrow> state" where
  "setCurrentBoard s board = s\<lparr>currentBoard := board\<rparr>"

text \<open>
  The label mutators read \<open>state.currentBoard.labels\<close> and call an array method on it:
  a \<open>null\<close> current board, or a \<open>labels\<close> property that is not an array, is a
  \<open>TypeError\<close>. \<open>with_labels\<close> is that read. The current board of the model is a value of
  its own: where the current board of the code is one of the objects of \<open>state.boards\<close>,
  the writes of the label mutators show in \<open>state.boards\<close> too, and the model does not
  follow them there.
\<close>

definition with_labels :: "state \<Rightarrow> (obj \<Rightarrow> obj list \<Rightarrow> js_error + state) \<Rightarrow> js_error + state" where
  "with_labels s k =
     (case currentBoard s of
        None \<Rightarrow> Inl TypeError
      | Some b \<Rightarrow> (case field b ''labels'' of JArr ls \<Rightarrow> k b ls | _ \<Rightarrow> Inl TypeError))"

definition set_labels :: "state \<Rightarrow> obj \<Rightarrow> obj list \<Rightarrow> state" where
  "set_labels s b ls = s\<lparr>currentBoard := Some (b(''labels'' \<mapsto> JArr ls))\<rparr>"

definition removeLabelFromCurrentBoard :: "state \<Rightarrow> jsval \<Rightarrow> js_error + state" where
  "removeLabelFromCurrentBoard s labelId =
     with_labels s (\<lambda>b ls.
       let removeIndex = findIndex (\<lambda>l. strict_eq labelId (field l ''id'')) ls
       in if removeIndex > - 1
          then Inr (set_labels s b (remove_at (nat removeIndex) ls))
          else Inr s)"

text \<open>
  \<open>Array.prototype.find\<close> returns the first matching object itself; \<open>find_ref\<close> is its
  position in the array (\<open>None\<close> for \<open>undefined\<close>), so that the writes through
  \<open>labelToUpdate\<close> reach the array.
\<close>

fun find_ref :: "('a \<Rightarrow> bool) \<Rightarrow> 'a list \<Rightarrow> nat option" where
  "find_ref P [] = None"
| "find_ref P (x # xs) =
     (if P x then Some 0 else (case find_ref P xs of None \<Rightarrow> None | Some i \<Rightarrow> Some (Suc i)))"

definition updateLabelFromCurrentBoard :: "state \<Rightarrow> obj \<Rightarrow> js_error + state" where
  "updateLabelFromCurrentBoard s newLabel =
     with_labels s (\<lambda>b ls.
       case find_ref (\<lambda>l. strict_eq (field newLabel ''id'') (field l ''id'')) ls of
         None \<Rightarrow> Inl TypeError
       | Some i \<Rightarrow>
           Inr (set_labels s b
                  (ls[i := (ls ! i)(''title'' \<mapsto> field newLabel ''title'',
                                    ''color'' \<mapsto> field newLabel ''color'')])))"

definition addLabelToCurrentBoard :: "state \<Rightarrow> obj \<Rightarrow> js_error + state" where
  "addLabelToCurrentBoard s newLabel =
     with_labels s (\<lambda>b ls. Inr (set_labels s b (ls @ [newLabel])))"

subsection \<open>Committing a mutation\<close>

datatype mutation =
    M_addStack obj
  | M_orderStack order_payload
  | M_deleteStack obj
  | M_updateStack obj
  | M_addCard obj
  | M_addBoard obj
  | M_removeBoard obj
  | M_toggleNav
  | M_toggleSidebar
  | M_setBoards "obj list"
  | M_setSharees "obj list"
  | M_setBoardFilter jsval
  | M_setCurrentBoard "obj option"
  | M_removeLabelFromCurrentBoard jsval
  | M_updateLabelFromCurrentBoard obj
  | M_addLabelToCurrentBoard obj

fun commit :: "(string \<Rightarrow> int option) \<Rightarrow> mutation \<Rightarrow> state \<Rightarrow> js_error + state" where
  "commit N (M_addStack st) s = Inr (addStack s st)"
| "commit N (M_orderStack p) s = orderStack N s p"
| "commit N (M_deleteStack st) s = Inr (deleteStack s st)"
| "commit N (M_updateStack st) s = Inr (updateStack s st)"
| "commit N (M_addCard c) s = Inr (addCard s c)"
| "commit N (M_addBoard b) s = Inr (addBoard s b)"
| "commit N (M_removeBoard b) s = Inr (removeBoard s b)"
| "commit N M_toggleNav s = Inr (toggleNav s)"
| "commit N M_toggleSidebar s = Inr (toggleSidebar s)"
| "commit N (M_setBoards bs) s = Inr (setBoards s bs)"
| "commit N (M_setSharees sh) s = Inr (setSharees s sh)"
| "commit N (M_setBoardFilter flt) s = Inr (setBoardFilter s flt)"
| "commit N (M_setCurrentBoard b) s = Inr (setCurrentBoard s b)"
| "commit N (M_removeLabelFromCurrentBoard i) s = removeLabelFromCurrentBoard s i"
| "commit N (M_updateLabelFromCurrentBoard l) s = updateLabelFromCurrentBoard s l"
| "commit N (M_addLabelToCurrentBoard l) s = addLabelToCurrentBoard s l"

section \<open>Actions\<close>

text \<open>
  An action runs a synchronous part, issues at most one remote call and continues in the
  callback of the call's promise. The model runs one action with the way its remote
  call settles given as the \<open>reply\<close>, and returns a \<open>run\<close>: the events in the order they
  happen, the final store state and the failure the action ends with, if any. The
  event of a remote call holds the store state at the moment the call is issued.

  A rejection is the error object of the HTTP client: its \<open>response\<close> is \<open>undefined\<close>
  when no response was received, and the \<open>data\<close> of a response may be missing.
\<close>

record http_response =
  data :: "obj option"

record remote_error =
  response :: "http_response option"

datatype 'a reply = Resolved 'a | Rejected remote_error

datatype failure = Thrown js_error | Unhandled remote_error

datatype event =
    Committed mutation
  | Requested string state
  | Notified string
  | Logged jsval

record run =
  trace :: "event list"
  final :: state
  failed :: "failure option"

definition start :: "state \<Rightarrow> run" where
  "start s = \<lparr> trace = [], final = s, failed = None \<rparr>"

text \<open>Each step is skipped once the action has failed: an exception ends the function.\<close>

definition do_commit :: "(string \<Rightarrow> int option) \<Rightarrow> mutation \<Rightarrow> run \<Rightarrow> run" where
  "do_commit N m r =
     (if failed r \<noteq> None then r
      else case commit N m (final r) of
             Inl e \<Rightarrow> r\<lparr>failed := Some (Thrown e)\<rparr>
           | Inr s' \<Rightarrow> r\<lparr>trace := trace r @ [Committed m], final := s'\<rparr>)"

definition do_request :: "string \<Rightarrow> run \<Rightarrow> run" where
  "do_request name r =
     (if failed r \<noteq> None then r
      else r\<lparr>trace := trace r @ [Requested name (final r)]\<rparr>)"

definition do_notify :: "string \<Rightarrow> run \<Rightarrow> run" where
  "do_notify msg r =
     (if failed r \<noteq> None then r else r\<lparr>trace := trace r @ [Notified msg]\<rparr>)"

definition do_log :: "js_error + jsval \<Rightarrow> run \<Rightarrow> run" where
  "do_log v r =
     (if failed r \<noteq> None then r
      else case v of
             Inl e \<Rightarrow> r\<lparr>failed := Some (Thrown e)\<rparr>
           | Inr x \<Rightarrow> r\<lparr>trace := trace r @ [Logged x]\<rparr>)"

definition do_throw :: "js_error \<Rightarrow> run \<Rightarrow> run" where
  "do_throw e r = (if failed r \<noteq> None then r else r\<lparr>failed := Some (Thrown e)\<rparr>)"

text \<open>A rejection with no handler: the promise of the action stays rejected.\<close>

definition do_reject :: "remote_error \<Rightarrow> run \<Rightarrow> run" where
  "do_reject err r = (if failed r \<noteq> None then r else r\<lparr>failed := Some (Unhandled err)\<rparr>)"

text \<open>\<open>err.response.data.message\<close>\<close>

definition message_of :: "remote_error \<Rightarrow> js_error + jsval" where
  "message_of err =
     (case response err of
        None \<Rightarrow> Inl TypeError
      | Some resp \<Rightarrow>
          (case data resp of None \<Rightarrow> Inl TypeError | Some d \<Rightarrow> Inr (field d ''message'')))"

subsection \<open>Stack module\<close>

text \<open>
  The failure handler of \<open>orderStack\<close> commits \<open>{ stack, addedIndex, removedIndex }\<close>.
  The shorthand names the properties after the variables, so the property
  \<open>removedIndex\<close> holds \<open>removedIndex\<close> and the property \<open>addedIndex\<close> holds
  \<open>addedIndex\<close>: the payload of the first commit again.
\<close>

definition orderStack_action ::
  "(string \<Rightarrow> int option) \<Rightarrow> obj \<Rightarrow> int \<Rightarrow> int \<Rightarrow> unit reply \<Rightarrow> state \<Rightarrow> run" where
  "orderStack_action N st removedIndex addedIndex rep s =
     (let r1 = do_request ''reorderStack''
                 (do_commit N (M_orderStack \<lparr> p_stack = st, p_removedIndex = removedIndex,
                                               p_addedIndex = addedIndex \<rparr>) (start s))
      in case rep of
           Resolved _ \<Rightarrow> r1
         | Rejected err \<Rightarrow>
             do_commit N (M_orderStack \<lparr> p_stack = st, p_removedIndex = removedIndex,
                                          p_addedIndex = addedIndex \<rparr>)
               (do_log (message_of err)
                  (do_notify ''Failed to change order'' r1)))"

text \<open>
  \<open>for (let j in stack.cards)\<close> runs over the embedded cards when the property holds an
  array of card objects, and not at all when the property is missing.
\<close>

definition cards_of :: "obj \<Rightarrow> obj list" where
  "cards_of st = (case field st ''cards'' of JArr cs \<Rightarrow> cs | _ \<Rightarrow> [])"

definition ingest :: "(string \<Rightarrow> int option) \<Rightarrow> obj \<Rightarrow> run \<Rightarrow> run" where
  "ingest N st r =
     do_commit N (M_addStack (st(''cards'' := None)))
       (fold (\<lambda>c. do_commit N (M_addCard c)) (cards_of st) r)"

definition loadStacks_action ::
  "(string \<Rightarrow> int option) \<Rightarrow> obj \<Rightarrow> obj list reply \<Rightarrow> state \<Rightarrow> run" where
  "loadStacks_action N board rep s =
     (let r1 = do_request ''loadStacks'' (start s)
      in case rep of
           Resolved payloads \<Rightarrow> fold (ingest N) payloads r1
         | Rejected err \<Rightarrow> do_reject err r1)"

text \<open>
  Two actions write to their payload before the remote call, outside any commit:
  \<open>createStack\<close> writes \<open>stack.boardId = this.state.currentBoard.id\<close>, and
  \<open>addLabelToCurrentBoard\<close> writes \<open>newLabel.boardId\<close> in the same way. Their payload
  is a reference. \<open>Stored i\<close> is the object at position \<open>i\<close> of the collection the
  action is for (\<open>state.stacks\<close>; the labels of the current board), and the write
  changes the store. \<open>Fresh ob\<close> is an object that is no object of the store, such as
  the new stack of a form, and the write leaves the store as it is. A position outside
  the array refers to no stored object. The store is the production store, where
  \<open>strict\<close> is false; a development build raises on a write to the state outside a
  mutation.
\<close>

datatype payload = Stored nat | Fresh obj

definition write_boardId :: "state \<Rightarrow> payload \<Rightarrow> jsval \<Rightarrow> state" where
  "write_boardId s p v =
     (case p of
        Fresh ob \<Rightarrow> s
      | Stored i \<Rightarrow>
          if i < length (stacks s)
          then s\<lparr>stacks := (stacks s)[i := (stacks s ! i)(''boardId'' \<mapsto> v)]\<rparr>
          else s)"

text \<open>
  \<open>createStack\<close>: the read of \<open>this.state.currentBoard.id\<close> is a \<open>TypeError\<close> when no
  board is current; otherwise the write to the payload, then the remote call.
\<close>

definition createStack_action ::
  "(string \<Rightarrow> int option) \<Rightarrow> payload \<Rightarrow> obj reply \<Rightarrow> state \<Rightarrow> run" where
  "createStack_action N p rep s =
     (case currentBoard s of
        None \<Rightarrow> do_throw TypeError (start s)
      | Some b \<Rightarrow>
          (let r1 = do_request ''createStack'' (start (write_boardId s p (field b ''id'')))
           in case rep of
                Resolved createdStack \<Rightarrow> do_commit N (M_addStack createdStack) r1
              | Rejected err \<Rightarrow> do_reject err r1))"

definition deleteStack_action ::
  "(string \<Rightarrow> int option) \<Rightarrow> obj \<Rightarrow> obj reply \<Rightarrow> state \<Rightarrow> run" where
  "deleteStack_action N st rep s =
     (let r1 = do_request ''deleteStack'' (start s)
      in case rep of
           Resolved st' \<Rightarrow> do_commit N (M_deleteStack st') r1
         | Rejected err \<Rightarrow> do_reject err r1)"

definition updateStack_action ::
  "(string \<Rightarrow> int option) \<Rightarrow> obj \<Rightarrow> obj reply \<Rightarrow> state \<Rightarrow> run" where
  "updateStack_action N st rep s =
     (let r1 = do_request ''updateStack'' (start s)
      in case rep of
           Resolved st' \<Rightarrow> do_commit N (M_updateStack st') r1
         | Rejected err \<Rightarrow> do_reject err r1)"

subsection \<open>Root store\<close>

definition archiveBoard_action ::
  "(string \<Rightarrow> int option) \<Rightarrow> obj \<Rightarrow> obj reply \<Rightarrow> state \<Rightarrow> run" where
  "archiveBoard_action N board rep s =
     (let r1 = do_request ''updateBoard'' (start s)
      in case rep of
           Resolved b \<Rightarrow> do_commit N (M_addBoard b) r1
         | Rejected err \<Rightarrow> do_reject err r1)"

definition updateBoard_action ::
  "(string \<Rightarrow> int option) \<Rightarrow> obj \<Rightarrow> obj reply \<Rightarrow> state \<Rightarrow> run" where
  "updateBoard_action N board rep s =
     (let r1 = do_request ''updateBoard'' (start s)
      in case rep of
           Resolved storedBoard \<Rightarrow> do_commit N (M_addBoard storedBoard) r1
         | Rejected err \<Rightarrow> do_reject err r1)"

definition createBoard_action ::
  "(string \<Rightarrow> int option) \<Rightarrow> obj \<Rightarrow> obj reply \<Rightarrow> state \<Rightarrow> run" where
  "createBoard_action N boardData rep s =
     (let r1 = do_request ''createBoard'' (start s)
      in case rep of
           Resolved b \<Rightarrow> do_commit N (M_addBoard b) r1
         | Rejected err \<Rightarrow> do_reject err r1)"

definition removeBoard_action :: "(string \<Rightarrow> int option) \<Rightarrow> obj \<Rightarrow> state \<Rightarrow> run" where
  "removeBoard_action N board s = do_commit N (M_removeBoard board) (start s)"

definition loadBoards_action ::
  "(string \<Rightarrow> int option) \<Rightarrow> obj list reply \<Rightarrow> state \<Rightarrow> run" where
  "loadBoards_action N rep s =
     (let r1 = do_request ''loadBoards'' (start s)
      in case rep of
           Resolved bs \<Rightarrow> do_commit N (M_setBoards bs) r1
         | Rejected err \<Rightarrow> do_reject err r1)"

definition loadSharees_action ::
  "(string \<Rightarrow> int option) \<Rightarrow> obj list reply \<Rightarrow> state \<Rightarrow> run" where
  "loadSharees_action N rep s =
     (let r1 = do_request ''sharees'' (start s)
      in case rep of
           Resolved users \<Rightarrow> do_commit N (M_setSharees users) r1
         | Rejected err \<Rightarrow> do_reject err r1)"

text \<open>
  \<open>setBoardFilter({ commmit }, filter)\<close> takes the property \<open>commmit\<close> of the action
  context. The context has no such property, the parameter is \<open>undefined\<close>, and the call
  \<open>commmit('setBoardFilter', filter)\<close> is a \<open>TypeError\<close>.
\<close>

definition setBoardFilter_action :: "(string \<Rightarrow> int option) \<Rightarrow> jsval \<Rightarrow> state \<Rightarrow> run" where
  "setBoardFilter_action N flt s = do_throw TypeError (start s)"

definition toggleNav_action :: "(string \<Rightarrow> int option) \<Rightarrow> state \<Rightarrow> run" where
  "toggleNav_action N s = do_commit N M_toggleNav (start s)"

definition toggleSidebar_action :: "(string \<Rightarrow> int option) \<Rightarrow> state \<Rightarrow> run" where
  "toggleSidebar_action N s = do_commit N M_toggleSidebar (start s)"

definition setCurrentBoard_action ::
  "(string \<Rightarrow> int option) \<Rightarrow> obj option \<Rightarrow> state \<Rightarrow> run" where
  "setCurrentBoard_action N board s = do_commit N (M_setCurrentBoard board) (start s)"

definition removeLabelFromCurrentBoard_action ::
  "(string \<Rightarrow> int option) \<Rightarrow> obj \<Rightarrow> obj reply \<Rightarrow> state \<Rightarrow> run" where
  "removeLabelFromCurrentBoard_action N label rep s =
     (let r1 = do_request ''deleteLabel'' (start s)
      in case rep of
           Resolved l \<Rightarrow> do_commit N (M_removeLabelFromCurrentBoard (field l ''id'')) r1
         | Rejected err \<Rightarrow> do_reject err r1)"

definition updateLabelFromCurrentBoard_action ::
  "(string \<Rightarrow> int option) \<Rightarrow> obj \<Rightarrow> obj reply \<Rightarrow> state \<Rightarrow> run" where
  "updateLabelFromCurrentBoard_action N newLabel rep s =
     (let r1 = do_request ''updateLabel'' (start s)
      in case rep of
           Resolved l \<Rightarrow> do_commit N (M_updateLabelFromCurrentBoard l) r1
         | Rejected err \<Rightarrow> do_reject err r1)"

definition write_label_boardId :: "state \<Rightarrow> payload \<Rightarrow> jsval \<Rightarrow> state" where
  "write_label_boardId s p v =
     (case p of
        Fresh ob \<Rightarrow> s
      | Stored i \<Rightarrow>
          (case currentBoard s of
             None \<Rightarrow> s
           | Some b \<Rightarrow>
               (case field b ''labels'' of
                  JArr ls \<Rightarrow>
                    if i < length ls
                    then set_labels s b (ls[i := (ls ! i)(''boardId'' \<mapsto> v)])
                    else s
                | _ \<Rightarrow> s)))"

definition addLabelToCurrentBoard_action ::
  "(string \<Rightarrow> int option) \<Rightarrow> payload \<Rightarrow> obj reply \<Rightarrow> state \<Rightarrow> run" where
  "addLabelToCurrentBoard_action N p rep s =
     (case currentBoard s of
        None \<Rightarrow> do_throw TypeError (start s)
      | Some b \<Rightarrow>
          (let r1 = do_request ''createLabel''
                      (start (write_label_boardId s p (field b ''id'')))
           in case rep of
                Resolved l \<Rightarrow> do_commit N (M_addLabelToCurrentBoard l) r1
              | Rejected err \<Rightarrow> do_reject err r1))"

subsection \<open>Dispatching an action\<close>

datatype action =
    A_orderStack obj int int "unit reply"
  | A_loadStacks obj "obj list reply"
  | A_createStack payload "obj reply"
  | A_deleteStack obj "obj reply"
  | A_updateStack obj "obj reply"
  | A_archiveBoard obj "obj reply"
  | A_updateBoard obj "obj reply"
  | A_createBoard obj "obj reply"
  | A_removeBoard obj
  | A_loadBoards "obj list reply"
  | A_loadSharees "obj list reply"
  | A_setBoardFilter jsval
  | A_toggleNav
  | A_toggleSidebar
  | A_setCurrentBoard "obj option"
  | A_removeLabelFromCurrentBoard obj "obj reply"
  | A_updateLabelFromCurrentBoard obj "obj reply"
  | A_addLabelToCurrentBoard payload "obj reply"

fun dispatch :: "(string \<Rightarrow> int option) \<Rightarrow> action \<Rightarrow> state \<Rightarrow> run" where
  "dispatch N (A_orderStack st r a rep) s = orderStack_action N st r a rep s"
| "dispatch N (A_loadStacks b rep) s = loadStacks_action N b rep s"
| "dispatch N (A_createStack st rep) s = createStack_action N st rep s"
| "dispatch N (A_deleteStack st rep) s = deleteStack_action N st rep s"
| "dispatch N (A_updateStack st rep) s = updateStack_action N st rep s"
| "dispatch N (A_archiveBoard b rep) s = archiveBoard_action N b rep s"
| "dispatch N (A_updateBoard b rep) s = updateBoard_action N b rep s"
| "dispatch N (A_createBoard b rep) s = createBoard_action N b rep s"
| "dispatch N (A_removeBoard b) s = removeBoard_action N b s"
| "dispatch N (A_loadBoards rep) s = loadBoards_action N rep s"
| "dispatch N (A_loadSharees rep) s = loadSharees_action N rep s"
| "dispatch N (A_setBoardFilter flt) s = setBoardFilter_action N flt s"
| "dispatch N A_toggleNav s = toggleNav_action N s"
| "dispatch N A_toggleSidebar s = toggleSidebar_action N s"
| "dispatch N (A_setCurrentBoard b) s = setCurrentBoard_action N b s"
| "dispatch N (A_removeLabelFromCurrentBoard l rep) s = removeLabelFromCurrentBoard_action N l rep s"
| "dispatch N (A_updateLabelFromCurrentBoard l rep) s = updateLabelFromCurrentBoard_action N l rep s"
| "dispatch N (A_addLabelToCurrentBoard l rep) s = addLabelToCurrentBoard_action N l rep s"

section \<open>Auxiliary definitions and example data\<close>

text \<open>The number held by the \<open>order\<close> property of a stack, where it holds one.\<close>

definition order_num :: "obj \<Rightarrow> int" where
  "order_num st = (case field st ''order'' of JNum k \<Rightarrow> k | _ \<Rightarrow> 0)"

text \<open>The stacks A, B and C of board 7, in this order.\<close>

definition stack_A :: obj where
  "stack_A = [''id'' \<mapsto> JNum 1, ''boardId'' \<mapsto> JNum 7, ''order'' \<mapsto> JNum 0]"

definition stack_B :: obj where
  "stack_B = [''id'' \<mapsto> JNum 2, ''boardId'' \<mapsto> JNum 7, ''order'' \<mapsto> JNum 1]"

definition stack_C :: obj where
  "stack_C = [''id'' \<mapsto> JNum 3, ''boardId'' \<mapsto> JNum 7, ''order'' \<mapsto> JNum 2]"

definition abc_state :: state where
  "abc_state = initial_state\<lparr>stacks := [stack_A, stack_B, stack_C]\<rparr>"

text \<open>The ids of the stacks of a board in display order.\<close>

definition shown :: "state \<Rightarrow> jsval \<Rightarrow> (jsval \<times> jsval) list" where
  "shown s ident = map (\<lambda>st. (field st ''id'', field st ''order'')) (stacksByBoard Map.empty s ident)"

text \<open>Two rejections of a remote call: a server error with a message, and a failure with no response.\<close>

definition server_error :: remote_error where
  "server_error = \<lparr> response = Some \<lparr> data = Some [''message'' \<mapsto> JStr ''Bad request''] \<rparr> \<rparr>"

definition network_error :: remote_error where
  "network_error = \<lparr> response = None \<rparr>"

text \<open>Boards.\<close>

definition board_1 :: obj where "board_1 = [''archived'' \<mapsto> JBool True]"
definition board_2 :: obj where "board_2 = [''archived'' \<mapsto> JBool False]"
definition board_3 :: obj where "board_3 = [''shared'' \<mapsto> JBool True, ''archived'' \<mapsto> JBool False]"
definition board_shared_1 :: obj where
  "board_shared_1 = [''id'' \<mapsto> JNum 5, ''shared'' \<mapsto> JNum 1, ''archived'' \<mapsto> JBool False]"
definition board_deleted :: obj where
  "board_deleted = [''id'' \<mapsto> JNum 6, ''shared'' \<mapsto> JNum 1, ''deletedAt'' \<mapsto> JNum 1541203200]"

text \<open>A current board with two labels, and label payloads.\<close>

definition label_a :: obj where
  "label_a = [''id'' \<mapsto> JNum 1, ''title'' \<mapsto> JStr ''To do'', ''color'' \<mapsto> JStr ''ff0000'', ''boardId'' \<mapsto> JNum 7]"
definition label_b :: obj where
  "label_b = [''id'' \<mapsto> JNum 2, ''title'' \<mapsto> JStr ''Done'', ''color'' \<mapsto> JStr ''00ff00'', ''boardId'' \<mapsto> JNum 7]"
definition label_b_new :: obj where
  "label_b_new = [''id'' \<mapsto> JNum 2, ''title'' \<mapsto> JStr ''Finished'', ''color'' \<mapsto> JStr ''0000ff'']"
definition label_absent :: obj where
  "label_absent = [''id'' \<mapsto> JNum 9, ''title'' \<mapsto> JStr ''Later'', ''color'' \<mapsto> JStr ''cccccc'']"
definition board_7 :: obj where
  "board_7 = [''id'' \<mapsto> JNum 7, ''labels'' \<mapsto> JArr [label_a, label_b]]"

text \<open>
  The mutations an action has committed when it issues its remote call (\<open>None\<close>: no call
  is issued), and the property of an action that leaves the store alone until its
  remote call has resolved: nothing is committed before the call, the call is issued on
  the state the action started in, and after a rejection the state is that state still
  and nothing was committed. \<open>waits_on_stacks\<close> is the same property of the stacks
  collection alone. \<open>ingest_events\<close> are the commits of \<open>loadStacks\<close> for one stack
  payload. \<open>board_8\<close> is a current board other than that of the stacks A, B, C, and
  \<open>new_stack\<close> the payload of a new stack.
\<close>

fun committed_before_call :: "event list \<Rightarrow> mutation list option" where
  "committed_before_call [] = None"
| "committed_before_call (Requested nm snap # tr) = Some []"
| "committed_before_call (Committed m # tr) = map_option (Cons m) (committed_before_call tr)"
| "committed_before_call (e # tr) = committed_before_call tr"

definition waits_for_reply :: "state \<Rightarrow> 'a reply \<Rightarrow> run \<Rightarrow> bool" where
  "waits_for_reply s rep r =
     ((committed_before_call (trace r) = None \<or> committed_before_call (trace r) = Some [])
      \<and> (\<forall>nm snap. Requested nm snap \<in> set (trace r) \<longrightarrow> snap = s)
      \<and> (\<forall>err. rep = Rejected err \<longrightarrow>
            final r = s \<and> stacks (final r) = stacks s \<and> (\<forall>m. Committed m \<notin> set (trace r))))"

definition waits_on_stacks :: "state \<Rightarrow> 'a reply \<Rightarrow> run \<Rightarrow> bool" where
  "waits_on_stacks s rep r =
     ((committed_before_call (trace r) = None \<or> committed_before_call (trace r) = Some [])
      \<and> (\<forall>nm snap. Requested nm snap \<in> set (trace r) \<longrightarrow> stacks snap = stacks s)
      \<and> (\<forall>err. rep = Rejected err \<longrightarrow>
            stacks (final r) = stacks s \<and> (\<forall>m. Committed m \<notin> set (trace r))))"

definition board_8 :: obj where
  "board_8 = [''id'' \<mapsto> JNum 8]"

definition new_stack :: obj where
  "new_stack = [''title'' \<mapsto> JStr ''Ideas'']"

definition ingest_events :: "obj \<Rightarrow> event list" where
  "ingest_events st =
     map (\<lambda>c. Committed (M_addCard c)) (cards_of st) @ [Committed (M_addStack (st(''cards'' := None)))]"

text \<open>
  The ids of a collection, in its order; a list of ids no two of which are strictly
  equal; the number of records of a collection with a given id; array values (which are
  no ids: an array is strictly equal to nothing but itself); the test of \<open>addStack\<close>,
  \<open>addCard\<close> and \<open>addBoard\<close> for the record of a payload.
\<close>

definition ids :: "obj list \<Rightarrow> jsval list" where
  "ids xs = map (\<lambda>r. field r ''id'') xs"

fun distinct_ids :: "jsval list \<Rightarrow> bool" where
  "distinct_ids [] = True"
| "distinct_ids (v # vs) = ((\<forall>x\<in>set vs. \<not> strict_eq v x) \<and> distinct_ids vs)"

definition count_id :: "obj list \<Rightarrow> jsval \<Rightarrow> nat" where
  "count_id xs v = length (filter (\<lambda>r. strict_eq (field r ''id'') v) xs)"

definition is_array :: "jsval \<Rightarrow> bool" where
  "is_array v = (case v of JArr xs \<Rightarrow> True | _ \<Rightarrow> False)"

definition same_id :: "obj \<Rightarrow> obj \<Rightarrow> bool" where
  "same_id p r = strict_eq (field r ''id'') (field p ''id'')"

text \<open>
  The array operation the three upserting mutations share: the first record with the id
  of the payload is replaced by \<open>f\<close> of it and the payload, and the payload is appended
  when there is none. \<open>keeps_id\<close>: \<open>f\<close> of a record and a payload of the same id has
  that id.
\<close>

definition upsert :: "(obj \<Rightarrow> obj \<Rightarrow> obj) \<Rightarrow> obj list \<Rightarrow> obj \<Rightarrow> obj list" where
  "upsert f xs p =
     (case find_ref (same_id p) xs of None \<Rightarrow> xs @ [p] | Some i \<Rightarrow> xs[i := f (xs ! i) p])"

definition keeps_id :: "(obj \<Rightarrow> obj \<Rightarrow> obj) \<Rightarrow> bool" where
  "keeps_id f = (\<forall>e p. same_id p e \<longrightarrow> field (f e p) ''id'' = field e ''id'')"

text \<open>Payloads for the upserts.\<close>

definition board_titled :: obj where
  "board_titled = [''id'' \<mapsto> JNum 5, ''title'' \<mapsto> JStr ''Project'', ''archived'' \<mapsto> JBool False]"

definition board_patch :: obj where
  "board_patch = [''id'' \<mapsto> JNum 5, ''archived'' \<mapsto> JBool True]"

definition stack_A_patch :: obj where
  "stack_A_patch = [''id'' \<mapsto> JNum 1, ''title'' \<mapsto> JStr ''Backlog'']"

text \<open>
  What \<open>loadStacks\<close> does to the state for one stack payload; the property of a stack
  collection that no record with the id \<open>v\<close> has a \<open>cards\<close> property; and the payload
  \<open>{id: 1, cards: [{id: 10}, {id: 11}]}\<close> with a stored stack 1 that has a \<open>cards\<close>
  property.
\<close>

definition ingest_state :: "obj \<Rightarrow> state \<Rightarrow> state" where
  "ingest_state st s =
     addStack (fold (\<lambda>c s. addCard s c) (cards_of st) s) (st(''cards'' := None))"

definition no_cards_for :: "jsval \<Rightarrow> obj list \<Rightarrow> bool" where
  "no_cards_for v xs = (\<forall>r\<in>set xs. strict_eq (field r ''id'') v \<longrightarrow> r ''cards'' = None)"

definition card_10 :: obj where "card_10 = [''id'' \<mapsto> JNum 10]"
definition card_11 :: obj where "card_11 = [''id'' \<mapsto> JNum 11]"
definition stack_1_payload :: obj where
  "stack_1_payload = [''id'' \<mapsto> JNum 1, ''cards'' \<mapsto> JArr [card_10, card_11]]"
definition stack_1_created :: obj where
  "stack_1_created = [''id'' \<mapsto> JNum 1, ''cards'' \<mapsto> JArr []]"

section \<open>Lists: removal, insertion, sorting\<close>

lemma length_remove_at: "i < length xs \<Longrightarrow> length (remove_at i xs) = length xs - 1"
  by (simp add: remove_at_def)

lemma length_insert_at: "length (insert_at i x xs) = Suc (length xs)"
  by (simp add: insert_at_def)

lemma mset_insert_at: "mset (insert_at i x xs) = add_mset x (mset xs)"
proof -
  have "mset xs = mset (take i xs @ drop i xs)"
    by (simp only: append_take_drop_id)
  then have "mset xs = mset (take i xs) + mset (drop i xs)"
    by (simp only: mset_append)
  then show ?thesis by (simp add: insert_at_def)
qed

lemma mset_remove_at:
  assumes "i < length xs"
  shows "add_mset (xs ! i) (mset (remove_at i xs)) = mset xs"
proof -
  have "xs = take i xs @ xs ! i # drop (Suc i) xs"
    using assms by (rule id_take_nth_drop)
  then have "mset xs = mset (take i xs @ xs ! i # drop (Suc i) xs)"
    by simp
  then show ?thesis by (simp add: remove_at_def)
qed

lemma applyOrderToArray_mset:
  assumes "applyOrderToArray S r a = Some T"
  shows "mset T = mset S"
proof -
  from assms have r: "nat r < length S"
    and T: "T = insert_at (nat a) (S ! nat r) (remove_at (nat r) S)"
    by (auto simp: applyOrderToArray_def split: if_splits)
  show ?thesis unfolding T by (simp add: mset_insert_at mset_remove_at [OF r])
qed

lemma mset_js_insort: "mset (js_insort c x xs) = add_mset x (mset xs)"
  by (induction xs) auto

lemma mset_js_sort: "mset (js_sort c xs) = mset xs"
  by (induction xs) (auto simp: mset_js_insort)

lemma set_js_sort: "set (js_sort c xs) = set xs"
  by (metis mset_js_sort set_mset_mset)

lemma length_js_sort: "length (js_sort c xs) = length xs"
  by (metis mset_js_sort size_mset)

lemma js_insort_insort_key:
  assumes "\<forall>y\<in>set ys. not_after (c x y) = (k x \<le> k y)"
  shows "js_insort c x ys = insort_key k x ys"
  using assms by (induction ys) auto

lemma js_sort_sort_key:
  assumes "\<forall>x\<in>set xs. \<forall>y\<in>set xs. not_after (c x y) = (k x \<le> k y)"
  shows "js_sort c xs = sort_key k xs"
  using assms
proof (induction xs)
  case Nil
  then show ?case by simp
next
  case (Cons x xs)
  then have IH: "js_sort c xs = sort_key k xs" by simp
  have "js_insort c x (sort_key k xs) = insort_key k x (sort_key k xs)"
    using Cons.prems by (intro js_insort_insort_key) simp
  then show ?case using IH by simp
qed


lemma remove_at_insert_at: "i \<le> length xs \<Longrightarrow> remove_at i (insert_at i x xs) = xs"
  by (simp add: remove_at_def insert_at_def)

lemma nth_insert_at: "i \<le> length xs \<Longrightarrow> insert_at i x xs ! i = x"
  by (simp add: insert_at_def nth_append)

lemma insert_at_remove_at: "i < length xs \<Longrightarrow> insert_at i (xs ! i) (remove_at i xs) = xs"
  by (simp add: remove_at_def insert_at_def min_def id_take_nth_drop [symmetric])

lemma enumerate_map_nth: "enumerate 0 xs = map (\<lambda>j. (j, xs ! j)) [0..<length xs]"
  by (rule nth_equalityI) (simp_all add: nth_enumerate_eq)

lemma filter_map_nth: "filter Q xs = map (\<lambda>j. xs ! j) (filter (\<lambda>j. Q (xs ! j)) [0..<length xs])"
proof -
  have "filter Q xs = filter Q (map (\<lambda>j. xs ! j) [0..<length xs])"
    by (simp add: map_nth)
  also have "\<dots> = map (\<lambda>j. xs ! j) (filter (\<lambda>j. Q (xs ! j)) [0..<length xs])"
    by (simp add: filter_map o_def)
  finally show ?thesis .
qed

lemma restamp_props:
  assumes "distinct (map fst new)" "\<forall>r\<in>set new. fst r < length sts"
  shows "length (restamp i new sts) = length sts
       \<and> (\<forall>k<length new. restamp i new sts ! fst (new ! k)
              = (sts ! fst (new ! k))(''order'' \<mapsto> JNum (int (i + k))))
       \<and> (\<forall>j. j \<notin> fst ` set new \<longrightarrow> restamp i new sts ! j = sts ! j)"
  using assms
proof (induction new arbitrary: i sts)
  case Nil
  then show ?case by simp
next
  case (Cons r rest)
  define sts1 where "sts1 = sts[fst r := (sts ! fst r)(''order'' \<mapsto> JNum (int i))]"
  have len1: "length sts1 = length sts" by (simp add: sts1_def)
  have d: "distinct (map fst rest)" and nr: "fst r \<notin> fst ` set rest"
    using Cons.prems(1) by auto
  have b: "\<forall>q\<in>set rest. fst q < length sts1"
    using Cons.prems(2) len1 by simp
  have rb: "fst r < length sts" using Cons.prems(2) by simp
  note IH = Cons.IH [OF d b, of "Suc i"]
  have step: "restamp i (r # rest) sts = restamp (Suc i) rest sts1"
    by (simp add: sts1_def)
  have A: "length (restamp i (r # rest) sts) = length sts"
    using IH len1 step by simp
  have B: "restamp i (r # rest) sts ! fst ((r # rest) ! k)
              = (sts ! fst ((r # rest) ! k))(''order'' \<mapsto> JNum (int (i + k)))"
    if k: "k < length (r # rest)" for k
  proof (cases k)
    case 0
    have "restamp (Suc i) rest sts1 ! fst r = sts1 ! fst r"
      using IH nr by blast
    also have "\<dots> = (sts ! fst r)(''order'' \<mapsto> JNum (int i))"
      using rb by (simp add: sts1_def)
    finally show ?thesis using 0 step by simp
  next
    case (Suc k')
    then have k': "k' < length rest" using k by simp
    then have ne: "fst (rest ! k') \<noteq> fst r"
      using nr by (metis image_eqI nth_mem)
    have e1: "restamp (Suc i) rest sts1 ! fst (rest ! k')
            = (sts1 ! fst (rest ! k'))(''order'' \<mapsto> JNum (int (Suc i + k')))"
      using IH k' by blast
    have e2: "sts1 ! fst (rest ! k') = sts ! fst (rest ! k')"
      using ne by (simp add: sts1_def)
    show ?thesis using Suc step e1 e2 by simp
  qed
  have C: "restamp i (r # rest) sts ! j = sts ! j" if j: "j \<notin> fst ` set (r # rest)" for j
  proof -
    from j have jr: "j \<noteq> fst r" and jrest: "j \<notin> fst ` set rest" by auto
    have "restamp (Suc i) rest sts1 ! j = sts1 ! j" using IH jrest by blast
    also have "\<dots> = sts ! j" using jr by (simp add: sts1_def)
    finally show ?thesis using step by simp
  qed
  from A B C show ?case by blast
qed

lemma sorted_perm_upt:
  assumes "sorted ks" "mset ks = mset (map int [0..<n])"
  shows "ks = map int [0..<n]"
proof -
  have s: "sorted (map int [0..<n])"
    by (simp add: sorted_map sorted_wrt_iff_nth_less)
  have "sort ks = map int [0..<n]"
    using assms(2) s by (metis properties_for_sort)
  moreover have "sort ks = ks"
    using assms(1) by (rule sorted_sort_id)
  ultimately show ?thesis by simp
qed

section \<open>The order helper: round trip\<close>

text \<open>
  Claim C5. For every sequence \<open>S\<close> and every pair of indices \<open>r\<close>, \<open>a\<close> with
  \<open>0 \<le> r < length S\<close> and \<open>0 \<le> a < length S\<close>, moving the element at \<open>r\<close> to \<open>a\<close> and then
  the element at \<open>a\<close> to \<open>r\<close> gives \<open>S\<close> again: both calls return a sequence, and the second
  returns \<open>S\<close>, element for element.
\<close>

theorem applyOrderToArray_round_trip:
  assumes "0 \<le> r" "r < int (length S)" "0 \<le> a" "a < int (length S)"
  shows "\<exists>T. applyOrderToArray S r a = Some T \<and> applyOrderToArray T a r = Some S"
proof -
  let ?T = "insert_at (nat a) (S ! nat r) (remove_at (nat r) S)"
  have T: "applyOrderToArray S r a = Some ?T"
    using assms by (simp add: applyOrderToArray_def)
  have len: "length (remove_at (nat r) S) = length S - 1"
    using assms by (simp add: length_remove_at)
  have a_le: "nat a \<le> length (remove_at (nat r) S)"
    using assms len by linarith
  have "applyOrderToArray ?T a r
          = Some (insert_at (nat r) (?T ! nat a) (remove_at (nat a) ?T))"
    using assms by (simp add: applyOrderToArray_def length_insert_at len)
  also have "?T ! nat a = S ! nat r"
    using a_le by (rule nth_insert_at)
  also have "remove_at (nat a) ?T = remove_at (nat r) S"
    using a_le by (rule remove_at_insert_at)
  also have "insert_at (nat r) (S ! nat r) (remove_at (nat r) S) = S"
    using assms by (simp add: insert_at_remove_at)
  finally show ?thesis using T by simp
qed

theorem applyOrderToArray_round_trip_witness:
  "\<exists>T. applyOrderToArray [stack_A, stack_B, stack_C] 0 2 = Some T
       \<and> applyOrderToArray T 2 0 = Some [stack_A, stack_B, stack_C]"
  using applyOrderToArray_round_trip [of 0 "[stack_A, stack_B, stack_C]" 2] by simp

section \<open>Re-stamping of the order\<close>

lemma by_order_num:
  assumes "field x ''order'' = JNum kx" "field y ''order'' = JNum ky"
  shows "not_after (by_order N x y) = (kx \<le> ky)"
  using assms by (simp add: by_order_def js_sub_def not_after_def)

lemma sorted_orders:
  assumes num: "\<forall>y\<in>set ys. field y ''order'' = JNum (order_num y)"
    and perm: "mset (map order_num ys) = mset (map int [0..<n])"
  shows "map (\<lambda>st. field st ''order'') (js_sort (by_order N) ys) = map (\<lambda>i. JNum (int i)) [0..<n]"
proof -
  have "\<forall>x\<in>set ys. \<forall>y\<in>set ys. not_after (by_order N x y) = (order_num x \<le> order_num y)"
    using num by (simp add: by_order_num)
  then have srt: "js_sort (by_order N) ys = sort_key order_num ys"
    by (rule js_sort_sort_key)
  have "map (\<lambda>st. field st ''order'') (sort_key order_num ys)
          = map (\<lambda>st. JNum (order_num st)) (sort_key order_num ys)"
    using num by simp
  also have "\<dots> = map JNum (map order_num (sort_key order_num ys))"
    by simp
  also have "map order_num (sort_key order_num ys) = map int [0..<n]"
  proof (rule sorted_perm_upt)
    show "sorted (map order_num (sort_key order_num ys))" by simp
    have "mset (map order_num (sort_key order_num ys)) = image_mset order_num (mset ys)"
      by simp
    then show "mset (map order_num (sort_key order_num ys)) = mset (map int [0..<n])"
      using perm by simp
  qed
  finally show ?thesis using srt by (simp add: o_def)
qed

text \<open>
  Claim C3. Let \<open>n\<close> be the number of stacks whose \<open>boardId\<close> is that of the payload's
  stack, and let \<open>removedIndex\<close> and \<open>addedIndex\<close> be indices below \<open>n\<close>. Then the
  \<open>orderStack\<close> mutation returns a state, and in it the stacks of that board, filtered by
  \<open>boardId\<close> and sorted by \<open>order\<close>, carry the \<open>order\<close> values \<open>0, 1, ..., n - 1\<close> in
  this sequence: the values are the contiguous range and each equals the position of
  its stack.
\<close>

theorem orderStack_restamps:
  assumes n: "n = length (stacksByBoard N s (field (p_stack p) ''boardId''))"
    and valid: "0 \<le> p_removedIndex p" "p_removedIndex p < int n"
               "0 \<le> p_addedIndex p" "p_addedIndex p < int n"
  shows "\<exists>s'. orderStack N s p = Inr s'
           \<and> map (\<lambda>st. field st ''order'') (stacksByBoard N s' (field (p_stack p) ''boardId''))
               = map (\<lambda>i. JNum (int i)) [0..<n]"
proof -
  define b where "b = field (p_stack p) ''boardId''"
  define Q where "Q = (\<lambda>st. strict_eq (field st ''boardId'') b)"
  define sts where "sts = stacks s"
  define P where "P = filter (\<lambda>j. Q (sts ! j)) [0..<length sts]"
  define refs where "refs = filter (\<lambda>r. Q (snd r)) (enumerate 0 sts)"
  define cur where "cur = js_sort (by_order_ref N) refs"
  have refs_P: "refs = map (\<lambda>j. (j, sts ! j)) P"
    by (simp add: refs_def P_def enumerate_map_nth filter_map o_def)
  have nP: "n = length P"
    by (simp add: n stacksByBoard_def length_js_sort filter_map_nth [of _ "stacks s"]
          P_def Q_def b_def sts_def)
  have len_cur: "length cur = n"
    by (simp add: cur_def length_js_sort refs_P nP)
  obtain new where new: "applyOrderToArray cur (p_removedIndex p) (p_addedIndex p) = Some new"
    using valid len_cur by (simp add: applyOrderToArray_def)
  have mset_new: "mset new = mset refs"
    using applyOrderToArray_mset [OF new] by (simp add: cur_def mset_js_sort)
  have len_new: "length new = n"
    using mset_new by (metis size_mset length_map refs_P nP)
  have fst_new: "mset (map fst new) = mset P"
  proof -
    have "mset (map fst new) = mset (map fst refs)"
      using mset_new by (metis mset_map)
    then show ?thesis by (simp add: refs_P o_def)
  qed
  have dist: "distinct (map fst new)"
  proof -
    have "distinct P" by (simp add: P_def)
    with fst_new show ?thesis by (metis mset_eq_imp_distinct_iff)
  qed
  have set_fst: "fst ` set new = set P"
    using fst_new by (metis set_map set_mset_mset)
  have bound: "\<forall>r\<in>set new. fst r < length sts"
    using set_fst by (auto simp: P_def)
  define sts' where "sts' = restamp 0 new sts"
  have res: "orderStack N s p = Inr (s\<lparr>stacks := sts'\<rparr>)"
    using new by (simp add: orderStack_def cur_def refs_def Q_def b_def sts_def sts'_def)
  note rp = restamp_props [OF dist bound, of 0, folded sts'_def]
  have len': "length sts' = length sts" using rp by simp
  have stamped: "sts' ! fst (new ! k) = (sts ! fst (new ! k))(''order'' \<mapsto> JNum (int k))"
    if "k < length new" for k using rp that by simp
  have same: "sts' ! j = sts ! j" if "j \<notin> set P" for j
    using rp that set_fst by simp
  have Q_same: "Q (sts' ! j) = Q (sts ! j)" for j
  proof (cases "j \<in> set P")
    case True
    then obtain k where k: "k < length new" "fst (new ! k) = j"
      using set_fst by (metis imageE in_set_conv_nth)
    then show ?thesis using stamped [of k] by (simp add: Q_def field_def)
  next
    case False
    then show ?thesis using same by simp
  qed
  have filt': "filter Q sts' = map (\<lambda>j. sts' ! j) P"
    by (simp add: filter_map_nth [of Q sts'] len' Q_same P_def)
  define ys where "ys = map (\<lambda>j. sts' ! j) P"
  have num: "\<forall>y\<in>set ys. field y ''order'' = JNum (order_num y)"
  proof
    fix y assume "y \<in> set ys"
    then obtain j where j: "j \<in> set P" "y = sts' ! j" by (auto simp: ys_def)
    then obtain k where k: "k < length new" "fst (new ! k) = j"
      using set_fst by (metis imageE in_set_conv_nth)
    show "field y ''order'' = JNum (order_num y)"
      using stamped [of k] k j by (simp add: order_num_def field_def)
  qed
  have perm: "mset (map order_num ys) = mset (map int [0..<n])"
  proof -
    have "mset (map order_num ys) = image_mset (\<lambda>j. order_num (sts' ! j)) (mset P)"
      by (simp add: ys_def o_def)
    also have "\<dots> = image_mset (\<lambda>j. order_num (sts' ! j)) (mset (map fst new))"
      by (simp only: fst_new)
    also have "\<dots> = mset (map (\<lambda>r. order_num (sts' ! fst r)) new)"
      by (simp add: multiset.map_comp o_def)
    also have "map (\<lambda>r. order_num (sts' ! fst r)) new = map int [0..<n]"
    proof (rule nth_equalityI)
      show "length (map (\<lambda>r. order_num (sts' ! fst r)) new) = length (map int [0..<n])"
        by (simp add: len_new)
    next
      fix k assume "k < length (map (\<lambda>r. order_num (sts' ! fst r)) new)"
      then have k: "k < length new" by simp
      then show "map (\<lambda>r. order_num (sts' ! fst r)) new ! k = map int [0..<n] ! k"
        using stamped [of k] len_new by (simp add: order_num_def field_def)
    qed
    finally show ?thesis .
  qed
  have "map (\<lambda>st. field st ''order'') (stacksByBoard N (s\<lparr>stacks := sts'\<rparr>) b)
          = map (\<lambda>st. field st ''order'') (js_sort (by_order N) ys)"
    by (simp add: stacksByBoard_def ys_def filt' [symmetric] Q_def)
  also have "\<dots> = map (\<lambda>i. JNum (int i)) [0..<n]"
    using num perm by (rule sorted_orders)
  finally show ?thesis using res by (simp add: b_def)
qed

theorem orderStack_restamps_witness:
  "\<exists>s'. orderStack Map.empty abc_state
           \<lparr>p_stack = stack_B, p_removedIndex = 1, p_addedIndex = 0\<rparr> = Inr s'
      \<and> map (\<lambda>st. field st ''order'') (stacksByBoard Map.empty s' (JNum 7))
          = [JNum 0, JNum 1, JNum 2]"
proof -
  have n: "3 = length (stacksByBoard Map.empty abc_state
                 (field (p_stack \<lparr>p_stack = stack_B, p_removedIndex = 1, p_addedIndex = 0\<rparr>) ''boardId''))"
    by (simp add: stack_A_def stack_B_def stack_C_def abc_state_def initial_state_def
          stacksByBoard_def field_def strict_eq_def by_order_def js_sub_def not_after_def)
  have b: "field stack_B ''boardId'' = JNum 7"
    by (simp add: stack_B_def field_def)
  have u: "map (\<lambda>i. JNum (int i)) [0..<3] = [JNum 0, JNum 1, JNum 2]"
    by (simp add: upt_rec)
  show ?thesis
    using orderStack_restamps [OF n] b u by simp
qed

section \<open>Reordering: the optimistic commit and the failure handler\<close>

lemmas abc_defs = stack_A_def stack_B_def stack_C_def abc_state_def initial_state_def
  shown_def stacksByBoard_def field_def strict_eq_def by_order_def js_sub_def not_after_def

lemmas order_action_defs = orderStack_action_def do_commit_def do_request_def do_notify_def
  do_log_def message_of_def start_def orderStack_def by_order_ref_def applyOrderToArray_def
  insert_at_def remove_at_def enumerate_eq_zip upt_rec server_error_def network_error_def

lemma reorder_optimistic:
  "shown (final (orderStack_action Map.empty stack_B 1 0 (Resolved ()) abc_state)) (JNum 7)
     = [(JNum 2, JNum 0), (JNum 1, JNum 1), (JNum 3, JNum 2)]"
  by (simp add: abc_defs order_action_defs)

lemma reorder_adjacent_rejected:
  "shown (final (orderStack_action Map.empty stack_B 1 0 (Rejected server_error) abc_state)) (JNum 7)
     = [(JNum 1, JNum 0), (JNum 2, JNum 1), (JNum 3, JNum 2)]"
  by (simp add: abc_defs order_action_defs)

lemma reorder_no_response:
  "shown (final (orderStack_action Map.empty stack_B 1 0 (Rejected network_error) abc_state)) (JNum 7)
     = [(JNum 2, JNum 0), (JNum 1, JNum 1), (JNum 3, JNum 2)]"
  by (simp add: abc_defs order_action_defs)

lemma reorder_no_response_failed:
  "failed (orderStack_action Map.empty stack_B 1 0 (Rejected network_error) abc_state)
     = Some (Thrown TypeError)"
  by (simp add: abc_defs order_action_defs)

lemma reorder_far_at_call:
  "shown (final (orderStack_action Map.empty stack_A 0 2 (Resolved ()) abc_state)) (JNum 7)
     = [(JNum 2, JNum 0), (JNum 3, JNum 1), (JNum 1, JNum 2)]"
  by (simp add: abc_defs order_action_defs)

lemma reorder_far_rejected:
  "shown (final (orderStack_action Map.empty stack_A 0 2 (Rejected server_error) abc_state)) (JNum 7)
     = [(JNum 3, JNum 0), (JNum 1, JNum 1), (JNum 2, JNum 2)]"
  by (simp add: abc_defs order_action_defs)

text \<open>
  Whatever the indices, the failure handler commits the payload of the first commit:
  where the rejection has a message and both commits return, the events are the commit,
  the call, the notice, the logged message and the same commit again.
\<close>

lemma orderStack_handler_recommits:
  assumes "message_of err = Inr msg"
    and "orderStack N s \<lparr>p_stack = st, p_removedIndex = r, p_addedIndex = a\<rparr> = Inr s1"
    and "orderStack N s1 \<lparr>p_stack = st, p_removedIndex = r, p_addedIndex = a\<rparr> = Inr s2"
  shows "trace (orderStack_action N st r a (Rejected err) s)
           = [Committed (M_orderStack \<lparr>p_stack = st, p_removedIndex = r, p_addedIndex = a\<rparr>),
              Requested ''reorderStack'' s1,
              Notified ''Failed to change order'',
              Logged msg,
              Committed (M_orderStack \<lparr>p_stack = st, p_removedIndex = r, p_addedIndex = a\<rparr>)]"
    and "final (orderStack_action N st r a (Rejected err) s) = s2"
  using assms
  by (simp_all add: orderStack_action_def start_def do_commit_def do_request_def
        do_notify_def do_log_def Let_def)

text \<open>
  Claim C1. For the stacks A (order 0), B (order 1), C (order 2) of one board, dispatching
  \<open>orderStack\<close> with \<open>removedIndex = 1\<close> and \<open>addedIndex = 0\<close> gives B, A, C at once.
  The claim continues: when the remote call rejects, the failure handler applies the
  inverse reorder and the order is A, B, C again. The code does not do that. The handler
  commits the payload of the first commit again; for the adjacent move 1 to 0 the same
  move happens to be its own inverse, and only when the rejection carries a response,
  since the handler reads \<open>err.response.data.message\<close> before it commits. The theorem
  evaluates the action: the optimistic order; the order A, B, C after a rejection with a
  message; the order B, A, C left behind, with a \<open>TypeError\<close>, after a rejection without
  a response; and, for the move 0 to 2, the order B, C, A at the call and C, A, B after the
  rejection, where the inverse reorder would give A, B, C.
\<close>

theorem orderStack_failure_handler:
  "shown (final (orderStack_action Map.empty stack_B 1 0 (Resolved ()) abc_state)) (JNum 7)
     = [(JNum 2, JNum 0), (JNum 1, JNum 1), (JNum 3, JNum 2)]
   \<and> shown (final (orderStack_action Map.empty stack_B 1 0 (Rejected server_error) abc_state)) (JNum 7)
     = [(JNum 1, JNum 0), (JNum 2, JNum 1), (JNum 3, JNum 2)]
   \<and> shown (final (orderStack_action Map.empty stack_B 1 0 (Rejected network_error) abc_state)) (JNum 7)
     = [(JNum 2, JNum 0), (JNum 1, JNum 1), (JNum 3, JNum 2)]
   \<and> failed (orderStack_action Map.empty stack_B 1 0 (Rejected network_error) abc_state)
     = Some (Thrown TypeError)
   \<and> shown (final (orderStack_action Map.empty stack_A 0 2 (Resolved ()) abc_state)) (JNum 7)
     = [(JNum 2, JNum 0), (JNum 3, JNum 1), (JNum 1, JNum 2)]
   \<and> shown (final (orderStack_action Map.empty stack_A 0 2 (Rejected server_error) abc_state)) (JNum 7)
     = [(JNum 3, JNum 0), (JNum 1, JNum 1), (JNum 2, JNum 2)]"
  using reorder_optimistic reorder_adjacent_rejected reorder_no_response
    reorder_no_response_failed reorder_far_at_call reorder_far_rejected
  by (intro conjI)

section \<open>Strict equality\<close>

lemma strict_eq_simps:
  "strict_eq a (JNum n) = (a = JNum n)"
  "strict_eq a (JBool b) = (a = JBool b)"
  "strict_eq a (JStr str) = (a = JStr str)"
  "strict_eq a JUndefined = (a = JUndefined)"
  "strict_eq a JNull = (a = JNull)"
  "strict_eq a (JArr xs) = False"
  "strict_eq (JArr xs) c = False"
  by (cases a; simp add: strict_eq_def)+

lemma strict_eq_sym: "strict_eq a c = strict_eq c a"
  by (cases a; cases c; auto simp: strict_eq_def)

lemma strict_eq_eq: "strict_eq a c \<Longrightarrow> a = c"
  by (cases a; simp add: strict_eq_def)

section \<open>Board getters\<close>

lemma js_map_element: "js_map (\<lambda>x i xs. x) xs = xs"
proof -
  have "js_map (\<lambda>x i xs. x) xs = map snd (enumerate 0 xs)"
    by (simp add: js_map_def case_prod_unfold)
  then show ?thesis by simp
qed

lemmas board_defs = board_1_def board_2_def board_3_def field_def strict_eq_def
  BOARD_FILTERS_ALL_def BOARD_FILTERS_ARCHIVED_def BOARD_FILTERS_SHARED_def

text \<open>
  Claim C7. With the boards \<open>{archived: true}\<close>, \<open>{archived: false}\<close> and
  \<open>{shared: true, archived: false}\<close> in the store, \<open>noneArchivedBoards\<close> is the second
  and the third board, \<open>archivedBoards\<close> is the first board alone, and \<open>filteredBoards\<close>
  under the filter \<open>ARCHIVED\<close> is the one-element list of the first board mapped through
  \<open>boardToMenuItem\<close> (called, as \<open>Array.prototype.map\<close> calls it, with the board, its
  index 0 and the filtered array).
\<close>

theorem filter_semantics:
  "noneArchivedBoards (s\<lparr>boards := [board_1, board_2, board_3]\<rparr>) = [board_2, board_3]
   \<and> archivedBoards (s\<lparr>boards := [board_1, board_2, board_3]\<rparr>) = [board_1]
   \<and> filteredBoards boardToMenuItem
        (s\<lparr>boards := [board_1, board_2, board_3], boardFilter := BOARD_FILTERS_ARCHIVED\<rparr>)
       = [boardToMenuItem board_1 0 [board_1]]"
  by (simp add: noneArchivedBoards_def archivedBoards_def filteredBoards_def js_map_def board_defs)

text \<open>
  Claim C2 says that \<open>sharedBoards\<close> compares \<open>shared\<close> with \<open>true\<close> and so leaves out
  every board whose \<open>shared\<close> is the number 1. The getter tests \<open>board.shared\<close> for
  truthiness: a board with \<open>shared\<close> 1 and no \<open>deletedAt\<close> is one of the shared boards.
\<close>

theorem sharedBoards_counterexample:
  "field board_shared_1 ''shared'' = JNum 1
   \<and> board_shared_1 \<in> set (sharedBoards (initial_state\<lparr>boards := [board_shared_1]\<rparr>))"
  by (simp add: sharedBoards_def board_shared_1_def field_def)

lemma filteredBoards_shared:
  "boardFilter s = BOARD_FILTERS_SHARED \<Longrightarrow>
   filteredBoards (\<lambda>b i bs. b) s = filter (\<lambda>b. field b ''shared'' = JNum 1) (boards s)"
  by (simp add: filteredBoards_def js_map_element BOARD_FILTERS_ALL_def
        BOARD_FILTERS_ARCHIVED_def BOARD_FILTERS_SHARED_def strict_eq_simps)

text \<open>
  Claim C2, amended. \<open>sharedBoards\<close> selects the boards whose \<open>shared\<close> is truthy and
  whose \<open>deletedAt\<close> is not; the \<open>SHARED\<close> branch of \<open>filteredBoards\<close> selects the boards
  whose \<open>shared\<close> is strictly the number 1, whatever their \<open>deletedAt\<close>. A board with
  \<open>shared\<close> 1 is selected by \<open>filteredBoards\<close> under \<open>SHARED\<close>, and by \<open>sharedBoards\<close>
  exactly when its \<open>deletedAt\<close> is not truthy. A board with \<open>shared\<close> \<open>true\<close> is not
  selected by \<open>filteredBoards\<close> under \<open>SHARED\<close>, and is selected by \<open>sharedBoards\<close>
  exactly when its \<open>deletedAt\<close> is not truthy. The boards \<open>filteredBoards\<close> selects are
  read off with the projection that returns the board itself.
\<close>

theorem shared_getters:
  "(\<forall>b\<in>set (boards s). field b ''shared'' = JNum 1 \<longrightarrow>
      (boardFilter s = BOARD_FILTERS_SHARED \<longrightarrow> b \<in> set (filteredBoards (\<lambda>b i bs. b) s))
      \<and> (b \<in> set (sharedBoards s) \<longleftrightarrow> \<not> truthy (field b ''deletedAt'')))
   \<and> (\<forall>b\<in>set (boards s). field b ''shared'' = JBool True \<longrightarrow>
      (boardFilter s = BOARD_FILTERS_SHARED \<longrightarrow> b \<notin> set (filteredBoards (\<lambda>b i bs. b) s))
      \<and> (b \<in> set (sharedBoards s) \<longleftrightarrow> \<not> truthy (field b ''deletedAt'')))
   \<and> set (sharedBoards s)
        = {b \<in> set (boards s). truthy (field b ''shared'') \<and> \<not> truthy (field b ''deletedAt'')}
   \<and> (boardFilter s = BOARD_FILTERS_SHARED \<longrightarrow>
        set (filteredBoards (\<lambda>b i bs. b) s) = {b \<in> set (boards s). field b ''shared'' = JNum 1})"
proof -
  have A: "set (sharedBoards s)
        = {b \<in> set (boards s). truthy (field b ''shared'') \<and> \<not> truthy (field b ''deletedAt'')}"
    by (auto simp: sharedBoards_def)
  have B: "boardFilter s = BOARD_FILTERS_SHARED \<longrightarrow>
        set (filteredBoards (\<lambda>b i bs. b) s) = {b \<in> set (boards s). field b ''shared'' = JNum 1}"
    by (auto simp: filteredBoards_shared)
  show ?thesis unfolding A using B by auto
qed

theorem shared_getters_witness:
  "board_shared_1 \<in> set (filteredBoards (\<lambda>b i bs. b)
       (initial_state\<lparr>boards := [board_shared_1, board_deleted, board_3], boardFilter := BOARD_FILTERS_SHARED\<rparr>))
   \<and> board_shared_1 \<in> set (sharedBoards
       (initial_state\<lparr>boards := [board_shared_1, board_deleted, board_3], boardFilter := BOARD_FILTERS_SHARED\<rparr>))
   \<and> board_deleted \<in> set (filteredBoards (\<lambda>b i bs. b)
       (initial_state\<lparr>boards := [board_shared_1, board_deleted, board_3], boardFilter := BOARD_FILTERS_SHARED\<rparr>))
   \<and> board_deleted \<notin> set (sharedBoards
       (initial_state\<lparr>boards := [board_shared_1, board_deleted, board_3], boardFilter := BOARD_FILTERS_SHARED\<rparr>))
   \<and> board_3 \<notin> set (filteredBoards (\<lambda>b i bs. b)
       (initial_state\<lparr>boards := [board_shared_1, board_deleted, board_3], boardFilter := BOARD_FILTERS_SHARED\<rparr>))
   \<and> board_3 \<in> set (sharedBoards
       (initial_state\<lparr>boards := [board_shared_1, board_deleted, board_3], boardFilter := BOARD_FILTERS_SHARED\<rparr>))"
proof -
  let ?s = "initial_state\<lparr>boards := [board_shared_1, board_deleted, board_3], boardFilter := BOARD_FILTERS_SHARED\<rparr>"
  have f: "field board_shared_1 ''shared'' = JNum 1" "field board_deleted ''shared'' = JNum 1"
    "field board_3 ''shared'' = JBool True"
    "\<not> truthy (field board_shared_1 ''deletedAt'')" "truthy (field board_deleted ''deletedAt'')"
    "\<not> truthy (field board_3 ''deletedAt'')"
    by (simp_all add: board_shared_1_def board_deleted_def board_3_def field_def)
  have b: "boards ?s = [board_shared_1, board_deleted, board_3]" "boardFilter ?s = BOARD_FILTERS_SHARED"
    by simp_all
  show ?thesis
    using shared_getters [of ?s] f unfolding b by simp
qed

section \<open>Label mutators\<close>

lemma findIndex_none: "(\<forall>x\<in>set xs. \<not> P x) \<Longrightarrow> findIndex P xs = - 1"
  by (induction xs) auto

lemma findIndex_ge: "- 1 \<le> findIndex P xs"
  by (induction xs) (auto simp: Let_def)

lemma find_ref_none: "(\<forall>x\<in>set xs. \<not> P x) \<Longrightarrow> find_ref P xs = None"
  by (induction xs) auto

lemma find_ref_first:
  "k < length xs \<Longrightarrow> P (xs ! k) \<Longrightarrow> (\<forall>j<k. \<not> P (xs ! j)) \<Longrightarrow> find_ref P xs = Some k"
proof (induction xs arbitrary: k)
  case Nil
  then show ?case by simp
next
  case (Cons x xs)
  show ?case
  proof (cases k)
    case 0
    then show ?thesis using Cons.prems by simp
  next
    case (Suc k')
    have nx: "\<not> P x" using Cons.prems(3) Suc by auto
    have "find_ref P xs = Some k'"
    proof (rule Cons.IH)
      show "k' < length xs" using Cons.prems(1) Suc by simp
      show "P (xs ! k')" using Cons.prems(2) Suc by simp
      show "\<forall>j<k'. \<not> P (xs ! j)" using Cons.prems(3) Suc by auto
    qed
    then show ?thesis using nx Suc by simp
  qed
qed

text \<open>
  Claim C8. Let a board be current and its \<open>labels\<close> be the array \<open>ls\<close>. For a label id
  that no label of \<open>ls\<close> has, \<open>removeLabelFromCurrentBoard\<close> returns the state as it was,
  and \<open>updateLabelFromCurrentBoard\<close> raises a \<open>TypeError\<close>. When \<open>k\<close> is the first
  position of \<open>ls\<close> whose label has the id of the new label, the update returns a state
  whose current board is the board with that label having the new label's \<open>title\<close> and
  \<open>color\<close>, every other property of the label, every other label and every other
  property of the board being as before.
\<close>

theorem label_mutators:
  assumes cur: "currentBoard s = Some b" and labs: "field b ''labels'' = JArr ls"
  shows "((\<forall>l\<in>set ls. \<not> strict_eq labelId (field l ''id''))
            \<longrightarrow> removeLabelFromCurrentBoard s labelId = Inr s)
       \<and> ((\<forall>l\<in>set ls. \<not> strict_eq (field newLabel ''id'') (field l ''id''))
            \<longrightarrow> updateLabelFromCurrentBoard s newLabel = Inl TypeError)
       \<and> (\<forall>k. k < length ls \<and> strict_eq (field newLabel ''id'') (field (ls ! k) ''id'')
              \<and> (\<forall>j<k. \<not> strict_eq (field newLabel ''id'') (field (ls ! j) ''id''))
            \<longrightarrow> (\<exists>s'. updateLabelFromCurrentBoard s newLabel = Inr s'
                  \<and> currentBoard s' = Some (b(''labels'' \<mapsto>
                      JArr (ls[k := (ls ! k)(''title'' \<mapsto> field newLabel ''title'',
                                             ''color'' \<mapsto> field newLabel ''color'')])))))"
proof (intro conjI impI allI)
  assume "\<forall>l\<in>set ls. \<not> strict_eq labelId (field l ''id'')"
  then have "findIndex (\<lambda>l. strict_eq labelId (field l ''id'')) ls = - 1"
    by (rule findIndex_none)
  then show "removeLabelFromCurrentBoard s labelId = Inr s"
    using cur labs by (simp add: removeLabelFromCurrentBoard_def with_labels_def)
next
  assume "\<forall>l\<in>set ls. \<not> strict_eq (field newLabel ''id'') (field l ''id'')"
  then have "find_ref (\<lambda>l. strict_eq (field newLabel ''id'') (field l ''id'')) ls = None"
    by (rule find_ref_none)
  then show "updateLabelFromCurrentBoard s newLabel = Inl TypeError"
    using cur labs by (simp add: updateLabelFromCurrentBoard_def with_labels_def)
next
  fix k
  assume k: "k < length ls \<and> strict_eq (field newLabel ''id'') (field (ls ! k) ''id'')
              \<and> (\<forall>j<k. \<not> strict_eq (field newLabel ''id'') (field (ls ! j) ''id''))"
  then have "find_ref (\<lambda>l. strict_eq (field newLabel ''id'') (field l ''id'')) ls = Some k"
    by (intro find_ref_first) simp_all
  then show "\<exists>s'. updateLabelFromCurrentBoard s newLabel = Inr s'
                  \<and> currentBoard s' = Some (b(''labels'' \<mapsto>
                      JArr (ls[k := (ls ! k)(''title'' \<mapsto> field newLabel ''title'',
                                             ''color'' \<mapsto> field newLabel ''color'')])))"
    using cur labs by (simp add: updateLabelFromCurrentBoard_def with_labels_def set_labels_def)
qed

theorem label_mutators_witness:
  "removeLabelFromCurrentBoard (initial_state\<lparr>currentBoard := Some board_7\<rparr>) (JNum 9)
      = Inr (initial_state\<lparr>currentBoard := Some board_7\<rparr>)
   \<and> updateLabelFromCurrentBoard (initial_state\<lparr>currentBoard := Some board_7\<rparr>) label_absent
      = Inl TypeError
   \<and> (\<exists>s'. updateLabelFromCurrentBoard (initial_state\<lparr>currentBoard := Some board_7\<rparr>) label_b_new
          = Inr s'
        \<and> currentBoard s' = Some (board_7(''labels'' \<mapsto>
            JArr [label_a, label_b(''title'' \<mapsto> JStr ''Finished'', ''color'' \<mapsto> JStr ''0000ff'')])))"
proof -
  let ?s = "initial_state\<lparr>currentBoard := Some board_7\<rparr>"
  have cur: "currentBoard ?s = Some board_7" by simp
  have labs: "field board_7 ''labels'' = JArr [label_a, label_b]"
    by (simp add: board_7_def field_def)
  have ids: "field label_a ''id'' = JNum 1" "field label_b ''id'' = JNum 2"
    "field label_absent ''id'' = JNum 9" "field label_b_new ''id'' = JNum 2"
    "field label_b_new ''title'' = JStr ''Finished''" "field label_b_new ''color'' = JStr ''0000ff''"
    by (simp_all add: label_a_def label_b_def label_absent_def label_b_new_def field_def)
  have one: "\<And>P. (\<forall>j<Suc 0. P j) = P 0" by simp
  from label_mutators [OF cur labs, of "JNum 9" label_absent]
  have A: "removeLabelFromCurrentBoard ?s (JNum 9) = Inr ?s"
    and B: "updateLabelFromCurrentBoard ?s label_absent = Inl TypeError"
    by (simp_all add: ids strict_eq_def)
  from label_mutators [OF cur labs, of "JNum 9" label_b_new]
  have "1 < length [label_a, label_b] \<and> strict_eq (field label_b_new ''id'') (field ([label_a, label_b] ! 1) ''id'')
              \<and> (\<forall>j<1. \<not> strict_eq (field label_b_new ''id'') (field ([label_a, label_b] ! j) ''id''))
            \<longrightarrow> (\<exists>s'. updateLabelFromCurrentBoard ?s label_b_new = Inr s'
                  \<and> currentBoard s' = Some (board_7(''labels'' \<mapsto>
                    JArr ([label_a, label_b][1 := ([label_a, label_b] ! 1)(''title'' \<mapsto> field label_b_new ''title'',
                                           ''color'' \<mapsto> field label_b_new ''color'')]))))"
    by blast
  then have C: "\<exists>s'. updateLabelFromCurrentBoard ?s label_b_new = Inr s'
        \<and> currentBoard s' = Some (board_7(''labels'' \<mapsto>
            JArr [label_a, label_b(''title'' \<mapsto> JStr ''Finished'', ''color'' \<mapsto> JStr ''0000ff'')]))"
    by (simp add: ids strict_eq_def)
  from A B C show ?thesis by simp
qed

section \<open>Commits and remote calls of the stack actions\<close>

lemmas step_defs = start_def do_commit_def do_request_def do_notify_def do_log_def
  do_throw_def do_reject_def

lemma createStack_commits_nothing_first:
  "committed_before_call (trace (createStack_action N p rep s)) = None
   \<or> committed_before_call (trace (createStack_action N p rep s)) = Some []"
  by (cases rep)
     (auto simp: createStack_action_def step_defs Let_def split: option.splits)

lemma createStack_rejected_commits_nothing:
  "Committed m \<notin> set (trace (createStack_action N p (Rejected err) s))"
  by (auto simp: createStack_action_def step_defs Let_def split: option.splits)

lemma createStack_fresh_waits:
  "waits_on_stacks s rep (createStack_action N (Fresh ob) rep s)"
  by (cases rep)
     (auto simp: waits_on_stacks_def createStack_action_def write_boardId_def step_defs
        Let_def split: option.splits)

lemma createStack_stored_writes:
  assumes "i < length (stacks s)" and "currentBoard s = Some b"
  shows "\<exists>rest. trace (createStack_action N (Stored i) rep s)
           = Requested ''createStack''
               (s\<lparr>stacks := (stacks s)[i := (stacks s ! i)(''boardId'' \<mapsto> field b ''id'')]\<rparr>)
             # rest"
    and "stacks (final (createStack_action N (Stored i) (Rejected err) s))
           = (stacks s)[i := (stacks s ! i)(''boardId'' \<mapsto> field b ''id'')]"
  using assms
  by (cases rep; simp add: createStack_action_def write_boardId_def step_defs Let_def)+

lemma updateStack_waits: "waits_for_reply s rep (updateStack_action N st rep s)"
  by (cases rep) (auto simp: waits_for_reply_def updateStack_action_def step_defs Let_def)

lemma deleteStack_waits: "waits_for_reply s rep (deleteStack_action N st rep s)"
  by (cases rep) (auto simp: waits_for_reply_def deleteStack_action_def step_defs Let_def)

lemma do_commit_add_trace:
  "m = M_addCard c \<or> m = M_addStack st \<Longrightarrow> failed r = None \<Longrightarrow>
   trace (do_commit N m r) = trace r @ [Committed m] \<and> failed (do_commit N m r) = None"
  by (auto simp: do_commit_def)

lemma fold_addCard_trace:
  "failed r = None \<Longrightarrow>
   trace (fold (\<lambda>c. do_commit N (M_addCard c)) cs r) = trace r @ map (\<lambda>c. Committed (M_addCard c)) cs
   \<and> failed (fold (\<lambda>c. do_commit N (M_addCard c)) cs r) = None"
proof (induction cs arbitrary: r)
  case Nil
  then show ?case by simp
next
  case (Cons c cs)
  have "failed (do_commit N (M_addCard c) r) = None"
    and "trace (do_commit N (M_addCard c) r) = trace r @ [Committed (M_addCard c)]"
    using Cons.prems by (simp_all add: do_commit_def)
  then show ?case using Cons.IH [of "do_commit N (M_addCard c) r"] by simp
qed

lemma ingest_trace:
  assumes "failed r = None"
  shows "trace (ingest N st r) = trace r @ ingest_events st \<and> failed (ingest N st r) = None"
proof -
  let ?r1 = "fold (\<lambda>c. do_commit N (M_addCard c)) (cards_of st) r"
  have 1: "trace ?r1 = trace r @ map (\<lambda>c. Committed (M_addCard c)) (cards_of st)"
    and 2: "failed ?r1 = None"
    using fold_addCard_trace [OF assms] by simp_all
  show ?thesis
    using 1 2 by (simp add: ingest_def ingest_events_def do_commit_def)
qed

lemma fold_ingest_trace:
  "failed r = None \<Longrightarrow>
   trace (fold (ingest N) ps r) = trace r @ concat (map ingest_events ps)
   \<and> failed (fold (ingest N) ps r) = None"
proof (induction ps arbitrary: r)
  case Nil
  then show ?case by simp
next
  case (Cons p ps)
  have "trace (ingest N p r) = trace r @ ingest_events p" and "failed (ingest N p r) = None"
    using ingest_trace [OF Cons.prems] by simp_all
  then show ?case using Cons.IH [of "ingest N p r"] by simp
qed

lemma loadStacks_trace:
  "trace (loadStacks_action N board (Resolved ps) s)
     = Requested ''loadStacks'' s # concat (map ingest_events ps)"
  using fold_ingest_trace [of "do_request ''loadStacks'' (start s)" N ps]
  by (simp add: loadStacks_action_def step_defs Let_def)

lemma loadStacks_waits: "waits_for_reply s rep (loadStacks_action N board rep s)"
proof (cases rep)
  case (Resolved ps)
  have "\<forall>e\<in>set (concat (map ingest_events ps)). \<exists>m. e = Committed m"
    by (auto simp: ingest_events_def)
  then show ?thesis
    unfolding Resolved waits_for_reply_def loadStacks_trace by auto
next
  case (Rejected err)
  then show ?thesis
    by (simp add: waits_for_reply_def loadStacks_action_def step_defs Let_def)
qed

lemma orderStack_commits_first:
  assumes "orderStack N s \<lparr>p_stack = st, p_removedIndex = r, p_addedIndex = a\<rparr> = Inr s1"
  shows "\<exists>rest. trace (orderStack_action N st r a rep s)
           = Committed (M_orderStack \<lparr>p_stack = st, p_removedIndex = r, p_addedIndex = a\<rparr>)
             # Requested ''reorderStack'' s1 # rest"
  using assms
  by (cases rep)
     (auto simp: orderStack_action_def step_defs Let_def split: sum.splits)

text \<open>
  Claim C9 says of \<open>createStack\<close>, as of \<open>updateStack\<close> and \<open>deleteStack\<close>, that it
  never changes the stacks collection before its remote call has resolved and leaves it
  unchanged on rejection. \<open>createStack\<close> writes \<open>stack.boardId\<close> on its payload before
  the call. Dispatched with the stored stack A (board 7) while board 8 is current, and
  rejected, it issues the call on a store in which A has \<open>boardId\<close> 8, and A keeps it.
\<close>

theorem createStack_counterexample:
  "field (stacks (abc_state\<lparr>currentBoard := Some board_8\<rparr>) ! 0) ''boardId'' = JNum 7
   \<and> trace (createStack_action Map.empty (Stored 0) (Rejected network_error)
        (abc_state\<lparr>currentBoard := Some board_8\<rparr>))
       = [Requested ''createStack''
            (abc_state\<lparr>currentBoard := Some board_8,
                        stacks := [stack_A(''boardId'' \<mapsto> JNum 8), stack_B, stack_C]\<rparr>)]
   \<and> field (stacks (final (createStack_action Map.empty (Stored 0) (Rejected network_error)
        (abc_state\<lparr>currentBoard := Some board_8\<rparr>))) ! 0) ''boardId'' = JNum 8"
  by (simp add: createStack_action_def write_boardId_def step_defs abc_state_def
        initial_state_def board_8_def stack_A_def field_def network_error_def)

text \<open>
  Claim C9, amended. Of the stack actions only \<open>orderStack\<close> commits before its remote
  call: whenever its mutation returns a state \<open>s1\<close>, the trace of the action begins with
  the commit of \<open>orderStack\<close> followed by the call \<open>reorderStack\<close>, issued on \<open>s1\<close>.
  \<open>updateStack\<close> and \<open>deleteStack\<close> (and \<open>loadStacks\<close>) commit nothing before their
  call, issue it on the state they started in, and after a rejection have committed
  nothing: the state, and with it the stacks collection, is unchanged. \<open>createStack\<close>
  commits nothing before its call either, and nothing at all when the call is rejected.
  With a payload that is no object of the store, the stacks collection is unchanged at
  the call and after a rejection. With a stored stack as payload and a board current,
  the call is issued on the store in which that stack has the \<open>id\<close> of the current
  board as its \<open>boardId\<close>, and after a rejection the stacks collection is that one.
\<close>

theorem only_reorder_is_optimistic:
  "(\<forall>s1. orderStack N s \<lparr>p_stack = st, p_removedIndex = r, p_addedIndex = a\<rparr> = Inr s1 \<longrightarrow>
       (\<exists>rest. trace (orderStack_action N st r a rep0 s)
           = Committed (M_orderStack \<lparr>p_stack = st, p_removedIndex = r, p_addedIndex = a\<rparr>)
             # Requested ''reorderStack'' s1 # rest)
       \<and> committed_before_call (trace (orderStack_action N st r a rep0 s))
           = Some [M_orderStack \<lparr>p_stack = st, p_removedIndex = r, p_addedIndex = a\<rparr>])
   \<and> waits_for_reply s rep2 (updateStack_action N st2 rep2 s)
   \<and> waits_for_reply s rep3 (deleteStack_action N st3 rep3 s)
   \<and> waits_for_reply s rep4 (loadStacks_action N board rep4 s)
   \<and> (committed_before_call (trace (createStack_action N p rep1 s)) = None
        \<or> committed_before_call (trace (createStack_action N p rep1 s)) = Some [])
   \<and> (\<forall>err m. rep1 = Rejected err \<longrightarrow>
          Committed m \<notin> set (trace (createStack_action N p rep1 s)))
   \<and> (\<forall>ob. p = Fresh ob \<longrightarrow> waits_on_stacks s rep1 (createStack_action N p rep1 s))
   \<and> (\<forall>i b. p = Stored i \<and> i < length (stacks s) \<and> currentBoard s = Some b \<longrightarrow>
          (\<exists>rest. trace (createStack_action N p rep1 s)
             = Requested ''createStack''
                 (s\<lparr>stacks := (stacks s)[i := (stacks s ! i)(''boardId'' \<mapsto> field b ''id'')]\<rparr>)
               # rest)
          \<and> (\<forall>err. rep1 = Rejected err \<longrightarrow>
                stacks (final (createStack_action N p rep1 s))
                  = (stacks s)[i := (stacks s ! i)(''boardId'' \<mapsto> field b ''id'')]))"
proof -
  have A: "\<forall>s1. orderStack N s \<lparr>p_stack = st, p_removedIndex = r, p_addedIndex = a\<rparr> = Inr s1 \<longrightarrow>
       (\<exists>rest. trace (orderStack_action N st r a rep0 s)
           = Committed (M_orderStack \<lparr>p_stack = st, p_removedIndex = r, p_addedIndex = a\<rparr>)
             # Requested ''reorderStack'' s1 # rest)
       \<and> committed_before_call (trace (orderStack_action N st r a rep0 s))
           = Some [M_orderStack \<lparr>p_stack = st, p_removedIndex = r, p_addedIndex = a\<rparr>]"
  proof (intro allI impI)
    fix s1
    assume "orderStack N s \<lparr>p_stack = st, p_removedIndex = r, p_addedIndex = a\<rparr> = Inr s1"
    from orderStack_commits_first [OF this, of rep0]
    obtain rest where t: "trace (orderStack_action N st r a rep0 s)
           = Committed (M_orderStack \<lparr>p_stack = st, p_removedIndex = r, p_addedIndex = a\<rparr>)
             # Requested ''reorderStack'' s1 # rest" by blast
    then show "(\<exists>rest. trace (orderStack_action N st r a rep0 s)
           = Committed (M_orderStack \<lparr>p_stack = st, p_removedIndex = r, p_addedIndex = a\<rparr>)
             # Requested ''reorderStack'' s1 # rest)
       \<and> committed_before_call (trace (orderStack_action N st r a rep0 s))
           = Some [M_orderStack \<lparr>p_stack = st, p_removedIndex = r, p_addedIndex = a\<rparr>]"
      by simp
  qed
  have B: "committed_before_call (trace (createStack_action N p rep1 s)) = None
        \<or> committed_before_call (trace (createStack_action N p rep1 s)) = Some []"
    by (rule createStack_commits_nothing_first)
  have C: "\<forall>err m. rep1 = Rejected err \<longrightarrow>
          Committed m \<notin> set (trace (createStack_action N p rep1 s))"
    using createStack_rejected_commits_nothing by blast
  have D: "\<forall>ob. p = Fresh ob \<longrightarrow> waits_on_stacks s rep1 (createStack_action N p rep1 s)"
    using createStack_fresh_waits by blast
  have E: "\<forall>i b. p = Stored i \<and> i < length (stacks s) \<and> currentBoard s = Some b \<longrightarrow>
          (\<exists>rest. trace (createStack_action N p rep1 s)
             = Requested ''createStack''
                 (s\<lparr>stacks := (stacks s)[i := (stacks s ! i)(''boardId'' \<mapsto> field b ''id'')]\<rparr>)
               # rest)
          \<and> (\<forall>err. rep1 = Rejected err \<longrightarrow>
                stacks (final (createStack_action N p rep1 s))
                  = (stacks s)[i := (stacks s ! i)(''boardId'' \<mapsto> field b ''id'')])"
    using createStack_stored_writes by blast
  show ?thesis
    using A updateStack_waits deleteStack_waits loadStacks_waits B C D E
    by (intro conjI)
qed

theorem only_reorder_is_optimistic_witness:
  "(\<exists>s1 rest. orderStack Map.empty abc_state \<lparr>p_stack = stack_B, p_removedIndex = 1, p_addedIndex = 0\<rparr> = Inr s1
       \<and> trace (orderStack_action Map.empty stack_B 1 0 (Resolved ()) abc_state)
           = Committed (M_orderStack \<lparr>p_stack = stack_B, p_removedIndex = 1, p_addedIndex = 0\<rparr>)
             # Requested ''reorderStack'' s1 # rest)
   \<and> final (updateStack_action Map.empty stack_A (Rejected network_error) abc_state) = abc_state
   \<and> final (deleteStack_action Map.empty stack_A (Rejected network_error) abc_state) = abc_state
   \<and> final (loadStacks_action Map.empty Map.empty (Rejected network_error) abc_state) = abc_state
   \<and> stacks (final (createStack_action Map.empty (Fresh new_stack) (Rejected network_error)
        (abc_state\<lparr>currentBoard := Some board_8\<rparr>))) = [stack_A, stack_B, stack_C]
   \<and> stacks (final (createStack_action Map.empty (Stored 0) (Rejected network_error)
        (abc_state\<lparr>currentBoard := Some board_8\<rparr>)))
       = [stack_A(''boardId'' \<mapsto> JNum 8), stack_B, stack_C]"
proof -
  let ?s8 = "abc_state\<lparr>currentBoard := Some board_8\<rparr>"
  let ?rj = "Rejected network_error :: obj reply"
  obtain s1 where s1: "orderStack Map.empty abc_state
      \<lparr>p_stack = stack_B, p_removedIndex = 1, p_addedIndex = 0\<rparr> = Inr s1"
    by (simp add: orderStack_def applyOrderToArray_def abc_state_def
          initial_state_def stack_A_def stack_B_def stack_C_def field_def strict_eq_def
          by_order_ref_def by_order_def js_sub_def not_after_def enumerate_eq_zip upt_rec)
  have st: "stacks ?s8 = [stack_A, stack_B, stack_C]" "currentBoard ?s8 = Some board_8"
    "field board_8 ''id'' = JNum 8"
    by (simp_all add: abc_state_def board_8_def field_def)
  note t = only_reorder_is_optimistic [where N = Map.empty and s = abc_state and st = stack_B
      and r = 1 and a = 0 and ?rep0.0 = "Resolved ()"
      and ?rep2.0 = "Rejected network_error" and ?st2.0 = stack_A
      and ?rep3.0 = "Rejected network_error" and ?st3.0 = stack_A
      and ?rep4.0 = "Rejected network_error" and board = Map.empty
      and ?rep1.0 = "Rejected network_error" and p = "Fresh new_stack"]
  note u = only_reorder_is_optimistic [where N = Map.empty and s = ?s8 and st = stack_B
      and r = 1 and a = 0 and ?rep0.0 = "Resolved ()"
      and ?rep2.0 = "Rejected network_error" and ?st2.0 = stack_A
      and ?rep3.0 = "Rejected network_error" and ?st3.0 = stack_A
      and ?rep4.0 = "Rejected network_error" and board = Map.empty
      and ?rep1.0 = "Rejected network_error" and p = "Fresh new_stack"]
  note v = only_reorder_is_optimistic [where N = Map.empty and s = ?s8 and st = stack_B
      and r = 1 and a = 0 and ?rep0.0 = "Resolved ()"
      and ?rep2.0 = "Rejected network_error" and ?st2.0 = stack_A
      and ?rep3.0 = "Rejected network_error" and ?st3.0 = stack_A
      and ?rep4.0 = "Rejected network_error" and board = Map.empty
      and ?rep1.0 = "Rejected network_error" and p = "Stored 0"]
  from t s1 have A: "\<exists>s1 rest. orderStack Map.empty abc_state \<lparr>p_stack = stack_B, p_removedIndex = 1, p_addedIndex = 0\<rparr> = Inr s1
       \<and> trace (orderStack_action Map.empty stack_B 1 0 (Resolved ()) abc_state)
           = Committed (M_orderStack \<lparr>p_stack = stack_B, p_removedIndex = 1, p_addedIndex = 0\<rparr>)
             # Requested ''reorderStack'' s1 # rest"
    by blast
  from t have B: "final (updateStack_action Map.empty stack_A (Rejected network_error) abc_state) = abc_state"
    "final (deleteStack_action Map.empty stack_A (Rejected network_error) abc_state) = abc_state"
    "final (loadStacks_action Map.empty Map.empty (Rejected network_error) abc_state) = abc_state"
    by (simp_all add: waits_for_reply_def)
  from u have "\<forall>ob. Fresh new_stack = Fresh ob \<longrightarrow>
      waits_on_stacks ?s8 ?rj
        (createStack_action Map.empty (Fresh new_stack) ?rj ?s8)"
    by (elim conjE) assumption
  then have "waits_on_stacks ?s8 ?rj
      (createStack_action Map.empty (Fresh new_stack) ?rj ?s8)"
    by simp
  then have C: "stacks (final (createStack_action Map.empty (Fresh new_stack)
        ?rj ?s8)) = [stack_A, stack_B, stack_C]"
    using st by (simp add: waits_on_stacks_def)
  from v have "\<forall>i b. Stored 0 = Stored i \<and> i < length (stacks ?s8) \<and> currentBoard ?s8 = Some b \<longrightarrow>
          (\<exists>rest. trace (createStack_action Map.empty (Stored 0) ?rj ?s8)
             = Requested ''createStack''
                 (?s8\<lparr>stacks := (stacks ?s8)[i := (stacks ?s8 ! i)(''boardId'' \<mapsto> field b ''id'')]\<rparr>)
               # rest)
          \<and> (\<forall>err. ?rj = Rejected err \<longrightarrow>
                stacks (final (createStack_action Map.empty (Stored 0) ?rj ?s8))
                  = (stacks ?s8)[i := (stacks ?s8 ! i)(''boardId'' \<mapsto> field b ''id'')])"
    by (elim conjE) assumption
  then have "Stored 0 = Stored 0 \<and> 0 < length (stacks ?s8) \<and> currentBoard ?s8 = Some board_8 \<longrightarrow>
          (\<forall>err. ?rj = Rejected err \<longrightarrow>
                stacks (final (createStack_action Map.empty (Stored 0) ?rj ?s8))
                  = (stacks ?s8)[0 := (stacks ?s8 ! 0)(''boardId'' \<mapsto> field board_8 ''id'')])"
    by blast
  then have "stacks (final (createStack_action Map.empty (Stored 0)
        ?rj ?s8))
       = (stacks ?s8)[0 := (stacks ?s8 ! 0)(''boardId'' \<mapsto> field board_8 ''id'')]"
    using st by simp
  then have D: "stacks (final (createStack_action Map.empty (Stored 0)
        ?rj ?s8)) = [stack_A(''boardId'' \<mapsto> JNum 8), stack_B, stack_C]"
    using st by simp
  from A B C D show ?thesis by (intro conjI)
qed

section \<open>The board filter\<close>

lemma commit_keeps_boardFilter:
  assumes "commit N m s = Inr s'" and "\<forall>f. m \<noteq> M_setBoardFilter f"
  shows "boardFilter s' = boardFilter s"
proof (cases m)
  case (M_orderStack p)
  then show ?thesis using assms
    by (auto simp: orderStack_def Let_def split: option.splits)
next
  case (M_removeLabelFromCurrentBoard i)
  then show ?thesis using assms
    by (auto simp: removeLabelFromCurrentBoard_def with_labels_def set_labels_def Let_def
          split: option.splits jsval.splits if_splits)
next
  case (M_updateLabelFromCurrentBoard l)
  then show ?thesis using assms
    by (auto simp: updateLabelFromCurrentBoard_def with_labels_def set_labels_def
          split: option.splits jsval.splits)
next
  case (M_addLabelToCurrentBoard l)
  then show ?thesis using assms
    by (auto simp: addLabelToCurrentBoard_def with_labels_def set_labels_def
          split: option.splits jsval.splits)
next
  case (M_setBoardFilter f)
  then show ?thesis using assms by simp
qed (use assms in \<open>auto simp: addStack_def deleteStack_def updateStack_def addCard_def
       addBoard_def removeBoard_def toggleNav_def toggleSidebar_def setBoards_def
       setSharees_def setCurrentBoard_def Let_def\<close>)

lemma do_commit_keeps_boardFilter:
  assumes "\<forall>f. m \<noteq> M_setBoardFilter f"
  shows "boardFilter (final (do_commit N m r)) = boardFilter (final r)"
proof (cases "commit N m (final r)")
  case (Inl e)
  then show ?thesis by (simp add: do_commit_def)
next
  case (Inr s')
  then have "boardFilter s' = boardFilter (final r)"
    using assms by (rule commit_keeps_boardFilter)
  then show ?thesis using Inr by (simp add: do_commit_def)
qed

lemma final_steps [simp]:
  "final (do_request nm r) = final r"
  "final (do_notify msg r) = final r"
  "final (do_log v r) = final r"
  "final (do_throw e r) = final r"
  "final (do_reject err r) = final r"
  "final (start s) = s"
  by (simp_all add: step_defs split: sum.splits)

lemma fold_addCard_keeps_boardFilter:
  "boardFilter (final (fold (\<lambda>c. do_commit N (M_addCard c)) cs r)) = boardFilter (final r)"
  by (induction cs arbitrary: r) (simp_all add: do_commit_keeps_boardFilter)

lemma ingest_keeps_boardFilter:
  "boardFilter (final (ingest N st r)) = boardFilter (final r)"
  by (simp add: ingest_def do_commit_keeps_boardFilter fold_addCard_keeps_boardFilter)

lemma fold_ingest_keeps_boardFilter:
  "boardFilter (final (fold (ingest N) ps r)) = boardFilter (final r)"
  by (induction ps arbitrary: r) (simp_all add: ingest_keeps_boardFilter)

lemma write_keeps_boardFilter:
  "boardFilter (write_boardId s p v) = boardFilter s"
  "boardFilter (write_label_boardId s p v) = boardFilter s"
  by (simp_all add: write_boardId_def write_label_boardId_def set_labels_def
        split: payload.splits option.splits jsval.splits)

lemma dispatch_keeps_boardFilter:
  "boardFilter (final (dispatch N a s)) = boardFilter s"
proof (cases a)
  case (A_orderStack st r ad rep)
  then show ?thesis
    by (cases rep) (simp_all add: orderStack_action_def Let_def do_commit_keeps_boardFilter)
next
  case (A_loadStacks b rep)
  then show ?thesis
    by (cases rep) (simp_all add: loadStacks_action_def Let_def fold_ingest_keeps_boardFilter)
next
  case (A_createStack p rep)
  then show ?thesis
    by (cases rep; cases "currentBoard s")
       (simp_all add: createStack_action_def Let_def do_commit_keeps_boardFilter
          write_keeps_boardFilter)
next
  case (A_deleteStack st rep)
  then show ?thesis
    by (cases rep) (simp_all add: deleteStack_action_def Let_def do_commit_keeps_boardFilter)
next
  case (A_updateStack st rep)
  then show ?thesis
    by (cases rep) (simp_all add: updateStack_action_def Let_def do_commit_keeps_boardFilter)
next
  case (A_archiveBoard b rep)
  then show ?thesis
    by (cases rep) (simp_all add: archiveBoard_action_def Let_def do_commit_keeps_boardFilter)
next
  case (A_updateBoard b rep)
  then show ?thesis
    by (cases rep) (simp_all add: updateBoard_action_def Let_def do_commit_keeps_boardFilter)
next
  case (A_createBoard b rep)
  then show ?thesis
    by (cases rep) (simp_all add: createBoard_action_def Let_def do_commit_keeps_boardFilter)
next
  case (A_removeBoard b)
  then show ?thesis
    by (simp add: removeBoard_action_def do_commit_keeps_boardFilter)
next
  case (A_loadBoards rep)
  then show ?thesis
    by (cases rep) (simp_all add: loadBoards_action_def Let_def do_commit_keeps_boardFilter)
next
  case (A_loadSharees rep)
  then show ?thesis
    by (cases rep) (simp_all add: loadSharees_action_def Let_def do_commit_keeps_boardFilter)
next
  case (A_setBoardFilter flt)
  then show ?thesis by (simp add: setBoardFilter_action_def)
next
  case A_toggleNav
  then show ?thesis by (simp add: toggleNav_action_def do_commit_keeps_boardFilter)
next
  case A_toggleSidebar
  then show ?thesis by (simp add: toggleSidebar_action_def do_commit_keeps_boardFilter)
next
  case (A_setCurrentBoard b)
  then show ?thesis by (simp add: setCurrentBoard_action_def do_commit_keeps_boardFilter)
next
  case (A_removeLabelFromCurrentBoard l rep)
  then show ?thesis
    by (cases rep)
       (simp_all add: removeLabelFromCurrentBoard_action_def Let_def do_commit_keeps_boardFilter)
next
  case (A_updateLabelFromCurrentBoard l rep)
  then show ?thesis
    by (cases rep)
       (simp_all add: updateLabelFromCurrentBoard_action_def Let_def do_commit_keeps_boardFilter)
next
  case (A_addLabelToCurrentBoard p rep)
  then show ?thesis
    by (cases rep; cases "currentBoard s")
       (simp_all add: addLabelToCurrentBoard_action_def Let_def do_commit_keeps_boardFilter
          write_keeps_boardFilter)
qed

text \<open>
  Claim C10. For every state and every filter value the \<open>setBoardFilter\<close> action fails
  with a \<open>TypeError\<close> (its parameter \<open>commmit\<close> is \<open>undefined\<close> and is called), commits
  nothing and leaves the state, and so \<open>boardFilter\<close>, unchanged. No action changes
  \<open>boardFilter\<close>, however its remote call settles, and a commit that changes it is a
  commit of the \<open>setBoardFilter\<close> mutation, which sets it to its payload.
\<close>

theorem setBoardFilter_action_raises:
  "failed (setBoardFilter_action N flt s) = Some (Thrown TypeError)
   \<and> final (setBoardFilter_action N flt s) = s
   \<and> trace (setBoardFilter_action N flt s) = []
   \<and> (\<forall>a. boardFilter (final (dispatch N a s)) = boardFilter s)
   \<and> (\<forall>m s'. commit N m s = Inr s' \<and> boardFilter s' \<noteq> boardFilter s
          \<longrightarrow> (\<exists>f. m = M_setBoardFilter f))
   \<and> commit N (M_setBoardFilter flt) s = Inr (s\<lparr>boardFilter := flt\<rparr>)"
proof -
  have A: "failed (setBoardFilter_action N flt s) = Some (Thrown TypeError)"
    "final (setBoardFilter_action N flt s) = s"
    "trace (setBoardFilter_action N flt s) = []"
    by (simp_all add: setBoardFilter_action_def step_defs)
  have B: "\<forall>m s'. commit N m s = Inr s' \<and> boardFilter s' \<noteq> boardFilter s
          \<longrightarrow> (\<exists>f. m = M_setBoardFilter f)"
    using commit_keeps_boardFilter by blast
  have C: "commit N (M_setBoardFilter flt) s = Inr (s\<lparr>boardFilter := flt\<rparr>)"
    by (simp add: setBoardFilter_def)
  show ?thesis using A B C dispatch_keeps_boardFilter by blast
qed

theorem setBoardFilter_action_raises_witness:
  "failed (setBoardFilter_action Map.empty BOARD_FILTERS_ARCHIVED initial_state) = Some (Thrown TypeError)
   \<and> boardFilter (final (setBoardFilter_action Map.empty BOARD_FILTERS_ARCHIVED initial_state))
       = BOARD_FILTERS_ALL
   \<and> boardFilter (final (dispatch Map.empty (A_setBoardFilter BOARD_FILTERS_ARCHIVED) initial_state))
       = BOARD_FILTERS_ALL
   \<and> commit Map.empty (M_setBoardFilter BOARD_FILTERS_ARCHIVED) initial_state
       = Inr (initial_state\<lparr>boardFilter := BOARD_FILTERS_ARCHIVED\<rparr>)
   \<and> (\<exists>f. M_setBoardFilter BOARD_FILTERS_ARCHIVED = M_setBoardFilter f)"
proof -
  note t = setBoardFilter_action_raises [of Map.empty BOARD_FILTERS_ARCHIVED initial_state]
  have ne: "boardFilter (initial_state\<lparr>boardFilter := BOARD_FILTERS_ARCHIVED\<rparr>) \<noteq> boardFilter initial_state"
    by (simp add: initial_state_def BOARD_FILTERS_ARCHIVED_def BOARD_FILTERS_ALL_def)
  have bf: "boardFilter initial_state = BOARD_FILTERS_ALL"
    by (simp add: initial_state_def)
  from t have c: "commit Map.empty (M_setBoardFilter BOARD_FILTERS_ARCHIVED) initial_state
       = Inr (initial_state\<lparr>boardFilter := BOARD_FILTERS_ARCHIVED\<rparr>)" by blast
  from t c ne have e: "\<exists>f. M_setBoardFilter BOARD_FILTERS_ARCHIVED = M_setBoardFilter f"
    by blast
  from t have d: "boardFilter (final (dispatch Map.empty (A_setBoardFilter BOARD_FILTERS_ARCHIVED) initial_state))
       = boardFilter initial_state" by blast
  from t c d e bf show ?thesis by simp
qed

section \<open>Upsert by id\<close>

lemma strict_eq_refl: "\<not> is_array v \<Longrightarrow> strict_eq v v"
  by (cases v) (simp_all add: strict_eq_def is_array_def)

lemma strict_eq_not_array: "strict_eq a c \<Longrightarrow> \<not> is_array a \<and> \<not> is_array c"
  by (cases a; cases c) (simp_all add: strict_eq_def is_array_def)

lemma find_ref_SomeD:
  "find_ref P xs = Some i \<Longrightarrow> i < length xs \<and> P (xs ! i) \<and> (\<forall>j<i. \<not> P (xs ! j))"
proof (induction xs arbitrary: i)
  case Nil
  then show ?case by simp
next
  case (Cons x xs)
  show ?case
  proof (cases "P x")
    case True
    then show ?thesis using Cons.prems by simp
  next
    case False
    then obtain i' where i': "find_ref P xs = Some i'" "i = Suc i'"
      using Cons.prems by (auto split: option.splits)
    from Cons.IH [OF i'(1)] have IH: "i' < length xs" "P (xs ! i')" "\<forall>j<i'. \<not> P (xs ! j)"
      by simp_all
    have "\<forall>j<Suc i'. \<not> P ((x # xs) ! j)"
    proof (intro allI impI)
      fix j assume "j < Suc i'"
      then show "\<not> P ((x # xs) ! j)" using False IH(3) by (cases j) simp_all
    qed
    then show ?thesis using IH i' by simp
  qed
qed

lemma find_ref_NoneD: "find_ref P xs = None \<Longrightarrow> \<forall>x\<in>set xs. \<not> P x"
  by (induction xs) (auto split: if_splits option.splits)

lemma findIndex_find_ref:
  "findIndex P xs = (case find_ref P xs of None \<Rightarrow> - 1 | Some i \<Rightarrow> int i)"
  by (induction xs) (auto simp: Let_def split: option.splits)

lemma find_find_ref: "List.find P xs = map_option (\<lambda>i. xs ! i) (find_ref P xs)"
  by (induction xs) (auto split: option.splits)

lemma addStack_upsert:
  "addStack s p =
     s\<lparr>stacks := (case find_ref (\<lambda>st. strict_eq (field st ''id'') (field p ''id'')) (stacks s) of
                    None \<Rightarrow> stacks s @ [p]
                  | Some i \<Rightarrow> (stacks s)[i := stacks s ! i ++ p])\<rparr>"
  by (simp add: addStack_def findIndex_find_ref find_find_ref assign_def Let_def
        split: option.splits)

lemma addCard_upsert:
  "addCard s p =
     s\<lparr>cards := (case find_ref (\<lambda>st. strict_eq (field st ''id'') (field p ''id'')) (cards s) of
                    None \<Rightarrow> cards s @ [p]
                  | Some i \<Rightarrow> (cards s)[i := cards s ! i ++ p])\<rparr>"
  by (simp add: addCard_def findIndex_find_ref assign_def Let_def split: option.splits)

lemma addBoard_upsert:
  "addBoard s p =
     s\<lparr>boards := (case find_ref (\<lambda>b. strict_eq (field p ''id'') (field b ''id'')) (boards s) of
                    None \<Rightarrow> boards s @ [p]
                  | Some i \<Rightarrow> (boards s)[i := p])\<rparr>"
  by (simp add: addBoard_def findIndex_find_ref Let_def split: option.splits)

lemma same_id_fun: "same_id p = (\<lambda>r. strict_eq (field r ''id'') (field p ''id''))"
  by (rule ext) (simp add: same_id_def)

lemma map_add_twice: "(e ++ p) ++ p = e ++ p" "p ++ p = p"
  by (rule ext, simp add: map_add_def split: option.splits)+

lemma keeps_id_merge: "keeps_id (\<lambda>e p. e ++ p)"
  unfolding keeps_id_def same_id_def
proof (intro allI impI)
  fix e p :: obj
  assume m: "strict_eq (field e ''id'') (field p ''id'')"
  then have "field e ''id'' = field p ''id''" by (rule strict_eq_eq)
  then show "field (e ++ p) ''id'' = field e ''id''"
    by (cases "p ''id''") (simp_all add: field_def map_add_def)
qed

lemma keeps_id_replace: "keeps_id (\<lambda>e p. p)"
  by (auto simp: keeps_id_def same_id_def dest: strict_eq_eq)

lemma stacks_addStack: "stacks (addStack s p) = upsert (\<lambda>e p. e ++ p) (stacks s) p"
  by (simp add: addStack_upsert upsert_def same_id_fun)

lemma cards_addCard: "cards (addCard s p) = upsert (\<lambda>e p. e ++ p) (cards s) p"
  by (simp add: addCard_upsert upsert_def same_id_fun)

lemma boards_addBoard: "boards (addBoard s p) = upsert (\<lambda>e p. p) (boards s) p"
proof -
  have "(\<lambda>b. strict_eq (field p ''id'') (field b ''id'')) = same_id p"
    by (rule ext) (simp add: same_id_def strict_eq_sym)
  then show ?thesis by (simp add: addBoard_upsert upsert_def)
qed

lemma ids_upsert:
  assumes "keeps_id f"
  shows "ids (upsert f xs p)
           = (if \<exists>r\<in>set xs. same_id p r then ids xs else ids xs @ [field p ''id''])"
proof (cases "find_ref (same_id p) xs")
  case None
  then have "\<forall>r\<in>set xs. \<not> same_id p r" by (rule find_ref_NoneD)
  then show ?thesis using None by (simp add: upsert_def ids_def)
next
  case (Some i)
  from find_ref_SomeD [OF Some] have i: "i < length xs" "same_id p (xs ! i)" by simp_all
  then have ex: "\<exists>r\<in>set xs. same_id p r" by (metis nth_mem)
  have "field (f (xs ! i) p) ''id'' = field (xs ! i) ''id''"
    using assms i(2) by (simp add: keeps_id_def)
  then have "ids (xs[i := f (xs ! i) p]) = ids xs"
    using i(1) by (simp add: ids_def map_update list_update_same_conv)
  then show ?thesis using Some ex by (simp add: upsert_def)
qed

lemma distinct_ids_snoc:
  "distinct_ids (vs @ [v]) = (distinct_ids vs \<and> (\<forall>x\<in>set vs. \<not> strict_eq x v))"
  by (induction vs) auto

lemma distinct_upsert:
  assumes "keeps_id f" "distinct_ids (ids xs)"
  shows "distinct_ids (ids (upsert f xs p))"
proof (cases "\<exists>r\<in>set xs. same_id p r")
  case True
  then show ?thesis using assms by (simp add: ids_upsert)
next
  case False
  then have "\<forall>x\<in>set (ids xs). \<not> strict_eq x (field p ''id'')"
    by (auto simp: ids_def same_id_def)
  then show ?thesis using assms False by (simp add: ids_upsert distinct_ids_snoc)
qed

lemma id_in_upsert:
  assumes "keeps_id f"
  shows "field p ''id'' \<in> set (ids (upsert f xs p))"
proof (cases "\<exists>r\<in>set xs. same_id p r")
  case True
  then obtain r where r: "r \<in> set xs" "same_id p r" by blast
  then have "field r ''id'' = field p ''id''"
    by (simp add: same_id_def strict_eq_eq)
  moreover have "field r ''id'' \<in> set (ids xs)" using r(1) by (simp add: ids_def)
  ultimately have "field p ''id'' \<in> set (ids xs)" by simp
  then show ?thesis using assms True by (simp add: ids_upsert)
next
  case False
  then show ?thesis using assms by (simp add: ids_upsert)
qed

lemma ids_upsert_mono:
  assumes "keeps_id f"
  shows "set (ids xs) \<subseteq> set (ids (upsert f xs p))"
  using assms by (auto simp: ids_upsert)

lemma fold_upsert:
  assumes "keeps_id f" "distinct_ids (ids xs)"
  shows "distinct_ids (ids (fold (\<lambda>p xs. upsert f xs p) ps xs))
       \<and> set (ids xs) \<subseteq> set (ids (fold (\<lambda>p xs. upsert f xs p) ps xs))
       \<and> (\<forall>p\<in>set ps. field p ''id'' \<in> set (ids (fold (\<lambda>p xs. upsert f xs p) ps xs)))"
  using assms(2)
proof (induction ps arbitrary: xs)
  case Nil
  then show ?case by simp
next
  case (Cons p ps)
  let ?xs = "upsert f xs p"
  have d: "distinct_ids (ids ?xs)" using assms(1) Cons.prems by (rule distinct_upsert)
  note IH = Cons.IH [OF d]
  have "set (ids xs) \<subseteq> set (ids ?xs)" using assms(1) by (rule ids_upsert_mono)
  moreover have "field p ''id'' \<in> set (ids ?xs)" using assms(1) by (rule id_in_upsert)
  ultimately show ?case using IH by auto
qed

lemma count_one:
  assumes "distinct_ids vs" "\<not> is_array v" "v \<in> set vs"
  shows "length (filter (\<lambda>x. strict_eq x v) vs) = 1"
  using assms
proof (induction vs)
  case Nil
  then show ?case by simp
next
  case (Cons x vs)
  show ?case
  proof (cases "strict_eq x v")
    case True
    then have xv: "x = v" by (rule strict_eq_eq)
    have "\<forall>y\<in>set vs. \<not> strict_eq y v"
    proof
      fix y assume y: "y \<in> set vs"
      show "\<not> strict_eq y v"
      proof
        assume "strict_eq y v"
        then have "y = v" by (rule strict_eq_eq)
        then have "strict_eq x y" using xv True by simp
        then show False using Cons.prems(1) y by simp
      qed
    qed
    then have "filter (\<lambda>x. strict_eq x v) vs = []" by (simp add: filter_empty_conv)
    then show ?thesis using True by simp
  next
    case False
    then have "x \<noteq> v" using Cons.prems(2) strict_eq_refl by blast
    then have "v \<in> set vs" using Cons.prems(3) by simp
    then show ?thesis using Cons.IH Cons.prems False by simp
  qed
qed

lemma count_id_ids: "count_id xs v = length (filter (\<lambda>x. strict_eq x v) (ids xs))"
  by (simp add: count_id_def ids_def filter_map o_def)

lemma stacks_fold_addStack:
  "stacks (fold (\<lambda>p s. addStack s p) ps s) = fold (\<lambda>p xs. upsert (\<lambda>e p. e ++ p) xs p) ps (stacks s)"
  by (induction ps arbitrary: s) (simp_all add: stacks_addStack)

lemma boards_fold_addBoard:
  "boards (fold (\<lambda>p s. addBoard s p) ps s) = fold (\<lambda>p xs. upsert (\<lambda>e p. p) xs p) ps (boards s)"
  by (induction ps arbitrary: s) (simp_all add: boards_addBoard)

lemma upsert_idem:
  assumes k: "keeps_id f" and na: "\<not> is_array (field p ''id'')"
    and f1: "\<And>e. f (f e p) p = f e p" and f2: "f p p = p"
  shows "upsert f (upsert f xs p) p = upsert f xs p"
proof (cases "find_ref (same_id p) xs")
  case None
  then have no: "\<forall>r\<in>set xs. \<not> same_id p r" by (rule find_ref_NoneD)
  have "find_ref (same_id p) (xs @ [p]) = Some (length xs)"
  proof (rule find_ref_first)
    show "length xs < length (xs @ [p])" by simp
    show "same_id p ((xs @ [p]) ! length xs)"
      using na by (simp add: same_id_def strict_eq_refl)
    show "\<forall>j<length xs. \<not> same_id p ((xs @ [p]) ! j)"
      using no by (simp add: nth_append)
  qed
  then show ?thesis using None f2 by (simp add: upsert_def)
next
  case (Some i)
  from find_ref_SomeD [OF Some]
  have i: "i < length xs" "same_id p (xs ! i)" "\<forall>j<i. \<not> same_id p (xs ! j)" by simp_all
  let ?xs = "xs[i := f (xs ! i) p]"
  have "find_ref (same_id p) ?xs = Some i"
  proof (rule find_ref_first)
    show "i < length ?xs" using i(1) by simp
    have "field (f (xs ! i) p) ''id'' = field (xs ! i) ''id''"
      using k i(2) by (simp add: keeps_id_def)
    then show "same_id p (?xs ! i)" using i(1,2) by (simp add: same_id_def)
    show "\<forall>j<i. \<not> same_id p (?xs ! j)" using i(3) by simp
  qed
  then show ?thesis using Some i(1) f1 by (simp add: upsert_def)
qed

lemma addStack_idem:
  assumes "\<not> is_array (field p ''id'')"
  shows "addStack (addStack s p) p = addStack s p"
proof -
  have "upsert (\<lambda>e p. e ++ p) (upsert (\<lambda>e p. e ++ p) (stacks s) p) p
          = upsert (\<lambda>e p. e ++ p) (stacks s) p"
    using keeps_id_merge assms by (rule upsert_idem) (simp_all add: map_add_twice)
  moreover have "addStack t p = t\<lparr>stacks := upsert (\<lambda>e p. e ++ p) (stacks t) p\<rparr>" for t
    by (simp add: addStack_upsert upsert_def same_id_fun)
  ultimately show ?thesis by simp
qed

lemma addBoard_idem:
  assumes "\<not> is_array (field p ''id'')"
  shows "addBoard (addBoard s p) p = addBoard s p"
proof -
  have "upsert (\<lambda>e p. p) (upsert (\<lambda>e p. p) (boards s) p) p = upsert (\<lambda>e p. p) (boards s) p"
    using keeps_id_replace assms by (rule upsert_idem) simp_all
  moreover have "addBoard t p = t\<lparr>boards := upsert (\<lambda>e p. p) (boards t) p\<rparr>" for t
    using boards_addBoard [of t p] by (simp add: addBoard_upsert split: option.splits)
  ultimately show ?thesis by simp
qed

text \<open>
  Claim C4 says of \<open>addBoard\<close>, as of \<open>addStack\<close>, that an add whose id exists merges
  the new fields over the existing record and keeps the fields the payload lacks.
  \<open>addBoard\<close> replaces the record by the payload: a stored board with a \<open>title\<close>,
  upserted with a payload of the same id without \<open>title\<close>, has no \<open>title\<close> afterwards.
\<close>

theorem addBoard_counterexample:
  "field (boards (initial_state\<lparr>boards := [board_titled]\<rparr>) ! 0) ''title'' = JStr ''Project''
   \<and> board_patch ''title'' = None
   \<and> length (boards (addBoard (initial_state\<lparr>boards := [board_titled]\<rparr>) board_patch)) = 1
   \<and> field (boards (addBoard (initial_state\<lparr>boards := [board_titled]\<rparr>) board_patch) ! 0) ''title''
       = JUndefined"
  by (simp add: addBoard_def board_titled_def board_patch_def field_def strict_eq_def)

text \<open>
  Claim C4, amended. Start from a store whose stacks, and whose boards, hold no two
  records with strictly equal ids (the empty store for one). After any sequence of
  \<open>addStack\<close> (of \<open>addBoard\<close>) mutations, possibly with repeated ids, the collection still
  holds no two records with strictly equal ids, and for each payload of the sequence
  exactly one record has its id (ids are primitive values, not arrays). An add whose id
  exists appends nothing: \<open>addStack\<close> puts, at the position of the first record with
  that id, the record merged with the payload, each property being the payload's where
  the payload has it and the record's where not; \<open>addBoard\<close> puts the payload itself
  there, so properties the payload lacks are dropped. An add whose id does not exist
  appends the payload. Adding the same payload twice gives the state of adding it once,
  for both.
\<close>

theorem upsert_one_record_per_id:
  assumes "distinct_ids (ids (stacks s))" and "distinct_ids (ids (boards s))"
  shows "distinct_ids (ids (stacks (fold (\<lambda>p s. addStack s p) ps s)))
    \<and> (\<forall>q\<in>set ps. \<not> is_array (field q ''id'') \<longrightarrow>
          count_id (stacks (fold (\<lambda>p s. addStack s p) ps s)) (field q ''id'') = 1)
    \<and> distinct_ids (ids (boards (fold (\<lambda>p s. addBoard s p) ps s)))
    \<and> (\<forall>q\<in>set ps. \<not> is_array (field q ''id'') \<longrightarrow>
          count_id (boards (fold (\<lambda>p s. addBoard s p) ps s)) (field q ''id'') = 1)
    \<and> (\<forall>i. find_ref (same_id p) (stacks s) = Some i \<longrightarrow>
          stacks (addStack s p) = (stacks s)[i := stacks s ! i ++ p]
          \<and> (\<forall>k. field (stacks (addStack s p) ! i) k
                  = (if p k = None then field (stacks s ! i) k else field p k)))
    \<and> (find_ref (same_id p) (stacks s) = None \<longrightarrow> stacks (addStack s p) = stacks s @ [p])
    \<and> (\<forall>i. find_ref (same_id p) (boards s) = Some i \<longrightarrow>
          boards (addBoard s p) = (boards s)[i := p])
    \<and> (find_ref (same_id p) (boards s) = None \<longrightarrow> boards (addBoard s p) = boards s @ [p])
    \<and> (\<not> is_array (field p ''id'') \<longrightarrow>
          addStack (addStack s p) p = addStack s p \<and> addBoard (addBoard s p) p = addBoard s p)"
proof -
  let ?S = "stacks (fold (\<lambda>p s. addStack s p) ps s)"
  let ?B = "boards (fold (\<lambda>p s. addBoard s p) ps s)"
  note fs = fold_upsert [OF keeps_id_merge assms(1), of ps, folded stacks_fold_addStack]
  note fb = fold_upsert [OF keeps_id_replace assms(2), of ps, folded boards_fold_addBoard]
  have S1: "distinct_ids (ids ?S)" using fs by simp
  have B1: "distinct_ids (ids ?B)" using fb by simp
  have S2: "\<forall>q\<in>set ps. \<not> is_array (field q ''id'') \<longrightarrow> count_id ?S (field q ''id'') = 1"
  proof (intro ballI impI)
    fix q assume "q \<in> set ps" "\<not> is_array (field q ''id'')"
    then show "count_id ?S (field q ''id'') = 1"
      using fs S1 by (simp add: count_id_ids count_one)
  qed
  have B2: "\<forall>q\<in>set ps. \<not> is_array (field q ''id'') \<longrightarrow> count_id ?B (field q ''id'') = 1"
  proof (intro ballI impI)
    fix q assume "q \<in> set ps" "\<not> is_array (field q ''id'')"
    then show "count_id ?B (field q ''id'') = 1"
      using fb B1 by (simp add: count_id_ids count_one)
  qed
  have S3: "\<forall>i. find_ref (same_id p) (stacks s) = Some i \<longrightarrow>
          stacks (addStack s p) = (stacks s)[i := stacks s ! i ++ p]
          \<and> (\<forall>k. field (stacks (addStack s p) ! i) k
                  = (if p k = None then field (stacks s ! i) k else field p k))"
  proof (intro allI impI)
    fix i assume f: "find_ref (same_id p) (stacks s) = Some i"
    then have i: "i < length (stacks s)" using find_ref_SomeD by blast
    have e: "stacks (addStack s p) = (stacks s)[i := stacks s ! i ++ p]"
      using f by (simp add: stacks_addStack upsert_def)
    have "\<forall>k. field (stacks (addStack s p) ! i) k
                  = (if p k = None then field (stacks s ! i) k else field p k)"
      unfolding e using i by (auto simp: field_def map_add_def split: option.splits)
    with e show "stacks (addStack s p) = (stacks s)[i := stacks s ! i ++ p]
          \<and> (\<forall>k. field (stacks (addStack s p) ! i) k
                  = (if p k = None then field (stacks s ! i) k else field p k))"
      by simp
  qed
  have S4: "find_ref (same_id p) (stacks s) = None \<longrightarrow> stacks (addStack s p) = stacks s @ [p]"
    by (simp add: stacks_addStack upsert_def)
  have B3: "\<forall>i. find_ref (same_id p) (boards s) = Some i \<longrightarrow>
          boards (addBoard s p) = (boards s)[i := p]"
    by (simp add: boards_addBoard upsert_def)
  have B4: "find_ref (same_id p) (boards s) = None \<longrightarrow> boards (addBoard s p) = boards s @ [p]"
    by (simp add: boards_addBoard upsert_def)
  have I: "\<not> is_array (field p ''id'') \<longrightarrow>
          addStack (addStack s p) p = addStack s p \<and> addBoard (addBoard s p) p = addBoard s p"
    by (simp add: addStack_idem addBoard_idem)
  from S1 S2 B1 B2 S3 S4 B3 B4 I show ?thesis by (intro conjI)
qed

theorem upsert_one_record_per_id_witness:
  "count_id (stacks (fold (\<lambda>p s. addStack s p) [stack_A, stack_B, stack_A_patch] initial_state))
       (JNum 1) = 1
   \<and> count_id (boards (fold (\<lambda>p s. addBoard s p) [stack_A, stack_B, stack_A_patch] initial_state))
       (JNum 1) = 1
   \<and> stacks (addStack abc_state stack_A_patch)
       = [stack_A ++ stack_A_patch, stack_B, stack_C]
   \<and> field (stacks (addStack abc_state stack_A_patch) ! 0) ''boardId'' = JNum 7
   \<and> field (stacks (addStack abc_state stack_A_patch) ! 0) ''title'' = JStr ''Backlog''
   \<and> boards (addBoard (initial_state\<lparr>boards := [board_titled]\<rparr>) board_patch) = [board_patch]
   \<and> stacks (addStack initial_state stack_A) = [stack_A]
   \<and> boards (addBoard initial_state board_patch) = [board_patch]
   \<and> addStack (addStack abc_state stack_A_patch) stack_A_patch = addStack abc_state stack_A_patch
   \<and> addBoard (addBoard initial_state board_patch) board_patch = addBoard initial_state board_patch"
proof -
  have d0: "distinct_ids (ids (stacks initial_state))" "distinct_ids (ids (boards initial_state))"
    by (simp_all add: initial_state_def ids_def)
  have d1: "distinct_ids (ids (stacks abc_state))" "distinct_ids (ids (boards abc_state))"
    by (simp_all add: abc_state_def initial_state_def ids_def stack_A_def stack_B_def
          stack_C_def field_def strict_eq_def)
  have d2: "distinct_ids (ids (stacks (initial_state\<lparr>boards := [board_titled]\<rparr>)))"
    "distinct_ids (ids (boards (initial_state\<lparr>boards := [board_titled]\<rparr>)))"
    by (simp_all add: initial_state_def ids_def)
  have f: "field stack_A ''id'' = JNum 1" "field stack_A_patch ''id'' = JNum 1"
    "field stack_B ''id'' = JNum 2" "field stack_C ''id'' = JNum 3"
    "field board_patch ''id'' = JNum 5" "field board_titled ''id'' = JNum 5"
    "field stack_A ''boardId'' = JNum 7" "field stack_A_patch ''title'' = JStr ''Backlog''"
    "stack_A_patch ''boardId'' = None" "stack_A_patch ''title'' \<noteq> None"
    by (simp_all add: stack_A_def stack_B_def stack_C_def stack_A_patch_def board_patch_def
          board_titled_def field_def)
  have na: "\<not> is_array (JNum 1)" "\<not> is_array (JNum 5)" by (simp_all add: is_array_def)
  note t0 = upsert_one_record_per_id [OF d0, of "[stack_A, stack_B, stack_A_patch]" stack_A]
  note t1 = upsert_one_record_per_id [OF d1, of "[]" stack_A_patch]
  note t2 = upsert_one_record_per_id [OF d2, of "[]" board_patch]
  note t3 = upsert_one_record_per_id [OF d0, of "[]" board_patch]
  have r1: "find_ref (same_id stack_A_patch) (stacks abc_state) = Some 0"
    by (simp add: abc_state_def same_id_def f strict_eq_def)
  have r2: "find_ref (same_id board_patch) (boards (initial_state\<lparr>boards := [board_titled]\<rparr>)) = Some 0"
    by (simp add: same_id_def f strict_eq_def)
  have r0: "find_ref (same_id stack_A) (stacks initial_state) = None"
    "find_ref (same_id board_patch) (boards initial_state) = None"
    by (simp_all add: initial_state_def)
  have A: "count_id (stacks (fold (\<lambda>p s. addStack s p) [stack_A, stack_B, stack_A_patch] initial_state))
       (JNum 1) = 1"
    "count_id (boards (fold (\<lambda>p s. addBoard s p) [stack_A, stack_B, stack_A_patch] initial_state))
       (JNum 1) = 1"
    using t0 f na by auto
  have B: "stacks (addStack abc_state stack_A_patch) = [stack_A ++ stack_A_patch, stack_B, stack_C]"
    "field (stacks (addStack abc_state stack_A_patch) ! 0) ''boardId'' = JNum 7"
    "field (stacks (addStack abc_state stack_A_patch) ! 0) ''title'' = JStr ''Backlog''"
    using t1 r1 f by (auto simp: abc_state_def)
  have C: "boards (addBoard (initial_state\<lparr>boards := [board_titled]\<rparr>) board_patch) = [board_patch]"
    using t2 r2 by auto
  have D: "stacks (addStack initial_state stack_A) = [stack_A]"
    "boards (addBoard initial_state board_patch) = [board_patch]"
    using t0 t3 r0 by (auto simp: initial_state_def)
  have E: "addStack (addStack abc_state stack_A_patch) stack_A_patch = addStack abc_state stack_A_patch"
    using t1 f na by auto
  have F: "addBoard (addBoard initial_state board_patch) board_patch = addBoard initial_state board_patch"
    using t3 f na by auto
  from A B C D E F show ?thesis by (intro conjI)
qed

section \<open>Loading stacks with embedded cards\<close>

lemma fold_addCard_final:
  "failed r = None \<Longrightarrow>
   final (fold (\<lambda>c. do_commit N (M_addCard c)) cs r) = fold (\<lambda>c s. addCard s c) cs (final r)"
proof (induction cs arbitrary: r)
  case Nil
  then show ?case by simp
next
  case (Cons c cs)
  have "failed (do_commit N (M_addCard c) r) = None"
    and "final (do_commit N (M_addCard c) r) = addCard (final r) c"
    using Cons.prems by (simp_all add: do_commit_def)
  then show ?case using Cons.IH [of "do_commit N (M_addCard c) r"] by simp
qed

lemma ingest_final:
  assumes "failed r = None"
  shows "final (ingest N st r) = ingest_state st (final r)"
proof -
  let ?r1 = "fold (\<lambda>c. do_commit N (M_addCard c)) (cards_of st) r"
  have "failed ?r1 = None" using fold_addCard_trace [OF assms] by simp
  moreover have "final ?r1 = fold (\<lambda>c s. addCard s c) (cards_of st) (final r)"
    using assms by (rule fold_addCard_final)
  ultimately show ?thesis by (simp add: ingest_def ingest_state_def do_commit_def)
qed

lemma fold_ingest_final:
  "failed r = None \<Longrightarrow> final (fold (ingest N) ps r) = fold ingest_state ps (final r)"
proof (induction ps arbitrary: r)
  case Nil
  then show ?case by simp
next
  case (Cons p ps)
  have "failed (ingest N p r) = None" using ingest_trace [OF Cons.prems] by simp
  then show ?case using Cons.IH [of "ingest N p r"] ingest_final [OF Cons.prems] by simp
qed

lemma loadStacks_final:
  "final (loadStacks_action N board (Resolved ps) s) = fold ingest_state ps s"
  "failed (loadStacks_action N board (Resolved ps) s) = None"
  using fold_ingest_final [of "do_request ''loadStacks'' (start s)" N ps]
    fold_ingest_trace [of "do_request ''loadStacks'' (start s)" N ps]
  by (simp_all add: loadStacks_action_def step_defs Let_def)

lemma fold_upsert_present:
  assumes "keeps_id f"
  shows "set (ids xs) \<subseteq> set (ids (fold (\<lambda>p xs. upsert f xs p) ps xs))
       \<and> (\<forall>p\<in>set ps. field p ''id'' \<in> set (ids (fold (\<lambda>p xs. upsert f xs p) ps xs)))"
proof (induction ps arbitrary: xs)
  case Nil
  then show ?case by simp
next
  case (Cons p ps)
  let ?xs = "upsert f xs p"
  note IH = Cons.IH [of ?xs]
  have "set (ids xs) \<subseteq> set (ids ?xs)" using assms by (rule ids_upsert_mono)
  moreover have "field p ''id'' \<in> set (ids ?xs)" using assms by (rule id_in_upsert)
  ultimately show ?case using IH by auto
qed

lemma cards_fold_addCard:
  "cards (fold (\<lambda>c s. addCard s c) cs s) = fold (\<lambda>p xs. upsert (\<lambda>e p. e ++ p) xs p) cs (cards s)"
  by (induction cs arbitrary: s) (simp_all add: cards_addCard)

lemma stacks_fold_addCard: "stacks (fold (\<lambda>c s. addCard s c) cs s) = stacks s"
  by (induction cs arbitrary: s) (simp_all add: addCard_upsert)

lemma cards_addStack: "cards (addStack s p) = cards s"
  by (simp add: addStack_upsert)

lemma cards_ingest_state:
  "set (ids (cards s)) \<subseteq> set (ids (cards (ingest_state st s)))
   \<and> (\<forall>c\<in>set (cards_of st). field c ''id'' \<in> set (ids (cards (ingest_state st s))))"
  using fold_upsert_present [OF keeps_id_merge, of "cards s" "cards_of st"]
  by (simp add: ingest_state_def cards_addStack cards_fold_addCard)

lemma stacks_ingest_state:
  "stacks (ingest_state st s) = upsert (\<lambda>e p. e ++ p) (stacks s) (st(''cards'' := None))"
  by (simp add: ingest_state_def stacks_addStack stacks_fold_addCard)

lemma no_cards_upsert:
  assumes inv: "no_cards_for v xs" and p: "p ''cards'' = None"
  shows "no_cards_for v (upsert (\<lambda>e p. e ++ p) xs p)"
proof (cases "find_ref (same_id p) xs")
  case None
  then show ?thesis using inv p by (simp add: upsert_def no_cards_for_def)
next
  case (Some i)
  from find_ref_SomeD [OF Some] have i: "i < length xs" "same_id p (xs ! i)" by simp_all
  let ?e = "xs ! i"
  have eid: "field (?e ++ p) ''id'' = field ?e ''id''"
    using keeps_id_merge i(2) by (simp add: keeps_id_def)
  have ecards: "(?e ++ p) ''cards'' = ?e ''cards''"
    using p by (simp add: map_add_def)
  have new: "strict_eq (field (?e ++ p) ''id'') v \<longrightarrow> (?e ++ p) ''cards'' = None"
    using inv i(1) eid ecards by (simp add: no_cards_for_def)
  have "\<forall>r\<in>set (xs[i := ?e ++ p]). strict_eq (field r ''id'') v \<longrightarrow> r ''cards'' = None"
  proof
    fix r assume "r \<in> set (xs[i := ?e ++ p])"
    then have "r = ?e ++ p \<or> r \<in> set xs"
      by (metis insert_iff set_update_subset_insert subsetD)
    then show "strict_eq (field r ''id'') v \<longrightarrow> r ''cards'' = None"
      using new inv by (auto simp: no_cards_for_def)
  qed
  then show ?thesis using Some by (simp add: upsert_def no_cards_for_def)
qed

lemma no_cards_ingest_state:
  "no_cards_for v (stacks s) \<Longrightarrow> no_cards_for v (stacks (ingest_state st s))"
  by (simp add: stacks_ingest_state no_cards_upsert)

lemma fold_ingest_state_inv:
  "no_cards_for v (stacks s) \<Longrightarrow> no_cards_for v (stacks (fold ingest_state ps s))"
  by (induction ps arbitrary: s) (simp_all add: no_cards_ingest_state)

lemma stripped_id: "field (st(''cards'' := None)) ''id'' = field st ''id''"
  by (simp add: field_def)

lemma fold_ingest_state_present:
  "set (ids (cards s)) \<subseteq> set (ids (cards (fold ingest_state ps s)))
   \<and> set (ids (stacks s)) \<subseteq> set (ids (stacks (fold ingest_state ps s)))
   \<and> (\<forall>st\<in>set ps. field st ''id'' \<in> set (ids (stacks (fold ingest_state ps s)))
        \<and> (\<forall>c\<in>set (cards_of st). field c ''id'' \<in> set (ids (cards (fold ingest_state ps s)))))"
proof (induction ps arbitrary: s)
  case Nil
  then show ?case by simp
next
  case (Cons p ps)
  let ?s = "ingest_state p s"
  note IH = Cons.IH [of ?s]
  note c = cards_ingest_state [of s p]
  have m: "set (ids (stacks s)) \<subseteq> set (ids (stacks ?s))"
    using ids_upsert_mono [OF keeps_id_merge] by (simp add: stacks_ingest_state)
  have "field (p(''cards'' := None)) ''id'' \<in> set (ids (stacks ?s))"
    unfolding stacks_ingest_state using keeps_id_merge by (rule id_in_upsert)
  then have i: "field p ''id'' \<in> set (ids (stacks ?s))" by (simp add: stripped_id)
  show ?case using IH c m i by (simp add: subset_iff)
qed

text \<open>
  Claim C6 says that after \<open>loadStacks\<close> has ingested the payload
  \<open>{id: 1, cards: [{id: 10}, {id: 11}]}\<close> the record of stack 1 has no \<open>cards\<close>
  property. The action strips \<open>cards\<close> from the payload, but \<open>addStack\<close> merges the
  payload over the stored record: when the store holds stack 1 with a \<open>cards\<close>
  property (as after \<open>addStack\<close> of a created stack \<open>{id: 1, cards: []}\<close>), the record
  has it after the load as before.
\<close>

theorem nested_ingest_counterexample:
  "stacks (final (loadStacks_action Map.empty Map.empty (Resolved [stack_1_payload])
       (initial_state\<lparr>stacks := [stack_1_created]\<rparr>)))
     = [stack_1_created]
   \<and> stack_1_created ''cards'' = Some (JArr [])
   \<and> field stack_1_created ''id'' = JNum 1"
  by (simp add: loadStacks_action_def step_defs ingest_def cards_of_def addStack_def addCard_def
        stack_1_payload_def stack_1_created_def card_10_def card_11_def field_def strict_eq_def
        assign_def initial_state_def fun_eq_iff map_add_def)

text \<open>
  Claim C6, amended. Let the response of \<open>loadStacks\<close> contain the payload \<open>st\<close>, and
  let no stored stack with the id of \<open>st\<close> have a \<open>cards\<close> property (as in the empty
  store). Then the action does not fail; afterwards the card store holds, for every card
  embedded in \<open>st\<close>, a card with its id; the stack store holds a record with the id of
  \<open>st\<close>, and no record with that id has a \<open>cards\<close> property; and the commits, after
  the remote call, are for each payload in turn one \<open>addCard\<close> for each embedded card
  followed by \<open>addStack\<close> of the payload without \<open>cards\<close>. For the payload
  \<open>{id: 1, cards: [{id: 10}, {id: 11}]}\<close>: cards 10 and 11 are in the card store and
  the record of stack 1 has no \<open>cards\<close>.
\<close>

theorem nested_ingest:
  assumes st: "st \<in> set payloads"
    and pre: "\<forall>r\<in>set (stacks s). strict_eq (field r ''id'') (field st ''id'') \<longrightarrow> r ''cards'' = None"
  shows "failed (loadStacks_action N board (Resolved payloads) s) = None
    \<and> (\<forall>c\<in>set (cards_of st). \<exists>c'\<in>set (cards (final (loadStacks_action N board (Resolved payloads) s))).
           field c' ''id'' = field c ''id'')
    \<and> (\<exists>r\<in>set (stacks (final (loadStacks_action N board (Resolved payloads) s))).
           field r ''id'' = field st ''id'')
    \<and> (\<forall>r\<in>set (stacks (final (loadStacks_action N board (Resolved payloads) s))).
           strict_eq (field r ''id'') (field st ''id'') \<longrightarrow> r ''cards'' = None)
    \<and> trace (loadStacks_action N board (Resolved payloads) s)
        = Requested ''loadStacks'' s # concat (map ingest_events payloads)"
proof -
  let ?s' = "fold ingest_state payloads s"
  note p = fold_ingest_state_present [of s payloads]
  have A: "\<forall>c\<in>set (cards_of st). \<exists>c'\<in>set (cards ?s'). field c' ''id'' = field c ''id''"
  proof
    fix c assume "c \<in> set (cards_of st)"
    then have "field c ''id'' \<in> set (ids (cards ?s'))" using p st by blast
    then show "\<exists>c'\<in>set (cards ?s'). field c' ''id'' = field c ''id''"
      by (auto simp: ids_def)
  qed
  have "field st ''id'' \<in> set (ids (stacks ?s'))" using p st by blast
  then have B: "\<exists>r\<in>set (stacks ?s'). field r ''id'' = field st ''id''"
    by (auto simp: ids_def)
  have "no_cards_for (field st ''id'') (stacks s)" using pre by (simp add: no_cards_for_def)
  then have "no_cards_for (field st ''id'') (stacks ?s')" by (rule fold_ingest_state_inv)
  then have C: "\<forall>r\<in>set (stacks ?s'). strict_eq (field r ''id'') (field st ''id'') \<longrightarrow> r ''cards'' = None"
    by (simp add: no_cards_for_def)
  show ?thesis
    unfolding loadStacks_final loadStacks_trace using A B C by simp
qed

theorem nested_ingest_witness:
  "failed (loadStacks_action Map.empty Map.empty (Resolved [stack_1_payload]) initial_state) = None
   \<and> (\<exists>c\<in>set (cards (final (loadStacks_action Map.empty Map.empty (Resolved [stack_1_payload])
           initial_state))). field c ''id'' = JNum 10)
   \<and> (\<exists>c\<in>set (cards (final (loadStacks_action Map.empty Map.empty (Resolved [stack_1_payload])
           initial_state))). field c ''id'' = JNum 11)
   \<and> (\<exists>r\<in>set (stacks (final (loadStacks_action Map.empty Map.empty (Resolved [stack_1_payload])
           initial_state))). field r ''id'' = JNum 1 \<and> r ''cards'' = None)
   \<and> trace (loadStacks_action Map.empty Map.empty (Resolved [stack_1_payload]) initial_state)
       = [Requested ''loadStacks'' initial_state, Committed (M_addCard card_10),
          Committed (M_addCard card_11),
          Committed (M_addStack (stack_1_payload(''cards'' := None)))]"
proof -
  let ?r = "loadStacks_action Map.empty Map.empty (Resolved [stack_1_payload]) initial_state"
  have st: "stack_1_payload \<in> set [stack_1_payload]" by simp
  have pre: "\<forall>r\<in>set (stacks initial_state).
      strict_eq (field r ''id'') (field stack_1_payload ''id'') \<longrightarrow> r ''cards'' = None"
    by (simp add: initial_state_def)
  have f: "field stack_1_payload ''id'' = JNum 1" "cards_of stack_1_payload = [card_10, card_11]"
    "field card_10 ''id'' = JNum 10" "field card_11 ''id'' = JNum 11"
    by (simp_all add: stack_1_payload_def card_10_def card_11_def cards_of_def field_def)
  note t = nested_ingest [OF st pre, of Map.empty Map.empty]
  from t have A: "failed ?r = None" by blast
  from t f have B: "\<exists>c\<in>set (cards (final ?r)). field c ''id'' = JNum 10"
    "\<exists>c\<in>set (cards (final ?r)). field c ''id'' = JNum 11"
    by simp_all
  from t f obtain r where r: "r \<in> set (stacks (final ?r))" "field r ''id'' = JNum 1"
    by auto
  moreover from t f r have "r ''cards'' = None"
    by (simp add: strict_eq_def)
  ultimately have C: "\<exists>r\<in>set (stacks (final ?r)). field r ''id'' = JNum 1 \<and> r ''cards'' = None"
    by blast
  from t f have D: "trace ?r
       = [Requested ''loadStacks'' initial_state, Committed (M_addCard card_10),
          Committed (M_addCard card_11),
          Committed (M_addStack (stack_1_payload(''cards'' := None)))]"
    by (simp add: ingest_events_def)
  from A B C D show ?thesis by (intro conjI)
qed


end
